theory Spec2Isabelle
  imports Complex_Main "HOL-Library.Char_ord" "HOL-Library.List_Lexorder"
    "HOL-Library.Product_Lexorder"
begin

section \<open>The DataFlash log reader of pymavlink (DFReader.py)\<close>

text \<open>
  The source is Python 2 (it ends in a \<^verbatim>\<open>print m\<close> statement): \<^verbatim>\<open>/\<close> on two ints
  is floor division, a \<^verbatim>\<open>str\<close> is a byte string, and values of different types can
  be ordered. The model keeps the following conventions.
  \<^item> A Python value held in a record field is a \<open>pyval\<close>: an int, a float or a str.
    Floats are modelled by exact reals: rounding, infinities and NaN are outside the model.
  \<^item> Every \<^verbatim>\<open>raise\<close> is a value \<open>Inl e\<close> of a sum type; the state of the reader object
    after an exception is not modelled.
  \<^item> The builtins \<^verbatim>\<open>int(str)\<close>, \<^verbatim>\<open>float(str)\<close>, \<^verbatim>\<open>str(number)\<close>, the IEEE decoding
    done by \<^verbatim>\<open>struct.unpack\<close> for code \<^verbatim>\<open>f\<close> and the two \<^verbatim>\<open>mavutil\<close> mode lookups are
    not part of DFReader.py; they are parameters, collected in the record \<open>builtins\<close>.
  \<^item> A \<^verbatim>\<open>DFMessage\<close> copies its fields into its own \<^verbatim>\<open>__dict__\<close>. The model reads
    an attribute \<^verbatim>\<open>m.X\<close> from the field dictionary \<^verbatim>\<open>_d\<close>; it therefore covers logs
    whose column names differ from the object's own attributes and methods
    (\<^verbatim>\<open>_d\<close>, \<^verbatim>\<open>fmt\<close>, \<^verbatim>\<open>_fieldnames\<close>, \<^verbatim>\<open>_timestamp\<close>, \<^verbatim>\<open>get_type\<close>, \<^verbatim>\<open>add_value\<close>).
\<close>

subsection \<open>Python values, errors and builtins\<close>

datatype pyval = PInt int | PFloat real | PStr string

datatype pytype = TInt | TFloat | TStr

datatype error =
    KeyError
  | IndexError
  | TypeError
  | ValueError
  | AttributeError
  | UnboundLocalError
  | ZeroDivisionError
  | StructError
  | UnsupportedFormatChar char string
  | UnknownMessageType nat

record builtins =
  int_of_str :: "string \<Rightarrow> int option"
  float_of_str :: "string \<Rightarrow> real option"
  str_of_int :: "int \<Rightarrow> string"
  str_of_float :: "real \<Rightarrow> string"
  float_of_bits :: "nat \<Rightarrow> real"
  mode_string_apm :: "pyval \<Rightarrow> string"
  mode_string_acm :: "pyval \<Rightarrow> string"

text \<open>Sequencing of fallible steps: the first exception ends the computation.\<close>

definition bnd :: "error + 'a \<Rightarrow> ('a \<Rightarrow> error + 'b) \<Rightarrow> error + 'b" where
  "bnd m f = (case m of Inl e \<Rightarrow> Inl e | Inr x \<Rightarrow> f x)"

text \<open>\<^verbatim>\<open>xs[i]\<close> for an index \<open>i \<ge> 0\<close>.\<close>

definition idx :: "'a list \<Rightarrow> nat \<Rightarrow> error + 'a" where
  "idx xs i = (if i < length xs then Inr (xs ! i) else Inl IndexError)"

text \<open>\<^verbatim>\<open>int(v)\<close>, \<^verbatim>\<open>float(v)\<close> and \<^verbatim>\<open>str(v)\<close>.\<close>

definition py_int :: "builtins \<Rightarrow> pyval \<Rightarrow> error + pyval" where
  "py_int py v =
     (case v of
        PInt n \<Rightarrow> Inr (PInt n)
      | PFloat r \<Rightarrow> Inr (PInt (if 0 \<le> r then \<lfloor>r\<rfloor> else \<lceil>r\<rceil>))
      | PStr s \<Rightarrow> (case int_of_str py s of None \<Rightarrow> Inl ValueError | Some n \<Rightarrow> Inr (PInt n)))"

definition py_float :: "builtins \<Rightarrow> pyval \<Rightarrow> error + pyval" where
  "py_float py v =
     (case v of
        PInt n \<Rightarrow> Inr (PFloat (of_int n))
      | PFloat r \<Rightarrow> Inr (PFloat r)
      | PStr s \<Rightarrow> (case float_of_str py s of None \<Rightarrow> Inl ValueError | Some r \<Rightarrow> Inr (PFloat r)))"

definition py_str :: "builtins \<Rightarrow> pyval \<Rightarrow> error + pyval" where
  "py_str py v =
     (case v of
        PInt n \<Rightarrow> Inr (PStr (str_of_int py n))
      | PFloat r \<Rightarrow> Inr (PStr (str_of_float py r))
      | PStr s \<Rightarrow> Inr (PStr s))"

definition apply_type :: "builtins \<Rightarrow> pytype \<Rightarrow> pyval \<Rightarrow> error + pyval" where
  "apply_type py ty v =
     (case ty of TInt \<Rightarrow> py_int py v | TFloat \<Rightarrow> py_float py v | TStr \<Rightarrow> py_str py v)"

text \<open>\<^verbatim>\<open>v * c\<close> for a float constant \<open>c\<close>: a number is multiplied, a str raises.\<close>

definition mul_float :: "pyval \<Rightarrow> real \<Rightarrow> error + real" where
  "mul_float v c =
     (case v of
        PInt n \<Rightarrow> Inr (of_int n * c)
      | PFloat r \<Rightarrow> Inr (r * c)
      | PStr s \<Rightarrow> Inl TypeError)"

subsection \<open>String helpers\<close>

definition NUL :: char where
  "NUL = CHR 0x00"

text \<open>\<^verbatim>\<open>s.find(c)\<close> for a one-character needle: the first index, or -1.\<close>

fun find_char :: "char \<Rightarrow> string \<Rightarrow> int" where
  "find_char c [] = -1"
| "find_char c (x # xs) =
     (if x = c then 0 else (let r = find_char c xs in if r = -1 then -1 else r + 1))"

definition null_term :: "string \<Rightarrow> string" where
  "null_term s = (let i = find_char NUL s in if i \<noteq> -1 then take (nat i) s else s)"

text \<open>\<^verbatim>\<open>s.rstrip()\<close> removes trailing whitespace, \<^verbatim>\<open>s.rstrip('\0')\<close> trailing NULs.\<close>

definition is_space :: "char \<Rightarrow> bool" where
  "is_space c = (c \<in> set [CHR '' '', CHR 0x09, CHR 0x0A, CHR 0x0B, CHR 0x0C, CHR 0x0D])"

definition rstrip_by :: "(char \<Rightarrow> bool) \<Rightarrow> string \<Rightarrow> string" where
  "rstrip_by p s = rev (dropWhile p (rev s))"

definition rstrip :: "string \<Rightarrow> string" where
  "rstrip s = rstrip_by is_space s"

definition rstrip_nul :: "string \<Rightarrow> string" where
  "rstrip_nul s = rstrip_by (\<lambda>c. c = NUL) s"

text \<open>
  \<^verbatim>\<open>s.split(sep)\<close> for a non-empty separator: the pieces between the non-overlapping
  occurrences of \<open>sep\<close>, found from the left. \<open>acc\<close> is the piece being read.
\<close>

function split_from :: "string \<Rightarrow> string \<Rightarrow> string \<Rightarrow> string list" where
  "split_from sep acc [] = [acc]"
| "split_from sep acc (c # cs) =
     (if sep \<noteq> [] \<and> take (length sep) (c # cs) = sep
      then acc # split_from sep [] (drop (length sep) (c # cs))
      else split_from sep (acc @ [c]) cs)"
  by pat_completeness auto
termination
  by (relation "measure (\<lambda>(sep, acc, s). length s)") auto

definition split :: "string \<Rightarrow> string \<Rightarrow> string list" where
  "split s sep = split_from sep [] s"

text \<open>\<^verbatim>\<open>s.upper()\<close> on a byte string: ASCII letters only.\<close>

definition upper_char :: "char \<Rightarrow> char" where
  "upper_char c =
     (let n = (of_char c :: nat) in if 97 \<le> n \<and> n \<le> 122 then char_of (n - 32) else c)"

definition upper :: "string \<Rightarrow> string" where
  "upper s = map upper_char s"

subsection \<open>The field codec: \<^verbatim>\<open>FORMAT_TO_STRUCT\<close>\<close>

text \<open>
  A \<^verbatim>\<open>struct\<close> field code. The source builds the format string \<^verbatim>\<open>"<" + codes\<close>; the
  model keeps the list of codes, little-endian and unpadded as \<^verbatim>\<open><\<close> asks.
\<close>

datatype scode = Sb | SB | Sh | SH | Si | SI | Sf | Ss nat | Sq | SQ

definition FORMAT_TO_STRUCT :: "char \<Rightarrow> (scode \<times> real option \<times> pytype) option" where
  "FORMAT_TO_STRUCT c =
     (if c = CHR ''b'' then Some (Sb, None, TInt)
      else if c = CHR ''B'' then Some (SB, None, TInt)
      else if c = CHR ''h'' then Some (Sh, None, TInt)
      else if c = CHR ''H'' then Some (SH, None, TInt)
      else if c = CHR ''i'' then Some (Si, None, TInt)
      else if c = CHR ''I'' then Some (SI, None, TInt)
      else if c = CHR ''f'' then Some (Sf, None, TFloat)
      else if c = CHR ''n'' then Some (Ss 4, None, TStr)
      else if c = CHR ''N'' then Some (Ss 16, None, TStr)
      else if c = CHR ''Z'' then Some (Ss 64, None, TStr)
      else if c = CHR ''c'' then Some (Sh, Some 0.01, TFloat)
      else if c = CHR ''C'' then Some (SH, Some 0.01, TFloat)
      else if c = CHR ''e'' then Some (Si, Some 0.01, TFloat)
      else if c = CHR ''E'' then Some (SI, Some 0.01, TFloat)
      else if c = CHR ''L'' then Some (Si, Some 0.0000001, TFloat)
      else if c = CHR ''M'' then Some (Sb, None, TInt)
      else if c = CHR ''q'' then Some (Sq, None, TInt)
      else if c = CHR ''Q'' then Some (SQ, None, TInt)
      else None)"

subsection \<open>\<^verbatim>\<open>DFFormat\<close>\<close>

record DFFormat =
  name :: string
  len :: pyval
  format :: string
  columns :: "string list"
  msg_struct :: "scode list"
  msg_types :: "pytype list"
  msg_mults :: "real option list"

text \<open>The loop \<^verbatim>\<open>for c in format\<close> of \<^verbatim>\<open>DFFormat.__init__\<close>; it stops at a NUL.\<close>

fun format_loop ::
  "string \<Rightarrow> string \<Rightarrow> scode list \<times> real option list \<times> pytype list \<Rightarrow>
   error + scode list \<times> real option list \<times> pytype list" where
  "format_loop nm [] acc = Inr acc"
| "format_loop nm (c # cs) (st, mults, types) =
     (if (of_char c :: nat) = 0 then Inr (st, mults, types)
      else (case FORMAT_TO_STRUCT c of
              None \<Rightarrow> Inl (UnsupportedFormatChar c nm)
            | Some (s, mul, ty) \<Rightarrow> format_loop nm cs (st @ [s], mults @ [mul], types @ [ty])))"

definition DFFormat_init :: "string \<Rightarrow> pyval \<Rightarrow> string \<Rightarrow> string \<Rightarrow> error + DFFormat" where
  "DFFormat_init nm ln0 fm cols =
     bnd (format_loop nm fm ([], [], []))
       (\<lambda>(st, mults, types). Inr \<lparr> name = nm, len = ln0, format = fm, columns = split cols '','',
              msg_struct = st, msg_types = types, msg_mults = mults \<rparr>)"

subsection \<open>\<^verbatim>\<open>DFMessage\<close>\<close>

text \<open>
  \<open>d\<close> is \<^verbatim>\<open>_d\<close>, \<open>fieldnames\<close> is \<^verbatim>\<open>_fieldnames\<close>, \<open>timestamp\<close> is \<^verbatim>\<open>_timestamp\<close>
  (\<open>None\<close> while the attribute has not been set).
\<close>

record DFMessage =
  d :: "string \<rightharpoonup> pyval"
  fmt :: DFFormat
  fieldnames :: "string list"
  timestamp :: "pyval option"

text \<open>One iteration of \<^verbatim>\<open>for i in range(len(fmt.columns))\<close>: the value stored for column \<open>i\<close>.\<close>

definition field_value :: "builtins \<Rightarrow> DFFormat \<Rightarrow> pyval list \<Rightarrow> bool \<Rightarrow> nat \<Rightarrow> error + pyval" where
  "field_value py f elements apply_multiplier i =
     bnd (idx (msg_mults f) i) (\<lambda>mul.
     bnd (idx elements i) (\<lambda>v0.
     bnd (idx (format f) i) (\<lambda>c.
     bnd (if c \<noteq> CHR ''M'' \<or> apply_multiplier
          then bnd (idx (msg_types f) i) (\<lambda>ty. apply_type py ty v0)
          else Inr v0) (\<lambda>v1.
     bnd (idx (msg_types f) i) (\<lambda>ty.
     bnd (if ty = TStr
          then (case v1 of PStr s \<Rightarrow> Inr (PStr (null_term s)) | _ \<Rightarrow> Inl AttributeError)
          else Inr v1) (\<lambda>v2.
     (case mul of
        Some k \<Rightarrow> if apply_multiplier then bnd (mul_float v2 k) (\<lambda>r. Inr (PFloat r)) else Inr v2
      | None \<Rightarrow> Inr v2)))))))"

fun DFMessage_loop ::
  "builtins \<Rightarrow> DFFormat \<Rightarrow> pyval list \<Rightarrow> bool \<Rightarrow> nat list \<Rightarrow> (string \<rightharpoonup> pyval) \<Rightarrow>
   error + (string \<rightharpoonup> pyval)" where
  "DFMessage_loop py f elements am [] dd = Inr dd"
| "DFMessage_loop py f elements am (i # rest) dd =
     bnd (field_value py f elements am i)
       (\<lambda>v. DFMessage_loop py f elements am rest (dd(columns f ! i \<mapsto> v)))"

definition DFMessage_init :: "builtins \<Rightarrow> DFFormat \<Rightarrow> pyval list \<Rightarrow> bool \<Rightarrow> error + DFMessage" where
  "DFMessage_init py f elements apply_multiplier =
     bnd (DFMessage_loop py f elements apply_multiplier [0 ..< length (columns f)] Map.empty)
       (\<lambda>dd. Inr \<lparr> d = dd, fmt = f, fieldnames = columns f, timestamp = None \<rparr>)"

definition add_value :: "DFMessage \<Rightarrow> string \<Rightarrow> pyval \<Rightarrow> DFMessage" where
  "add_value m nm v = m\<lparr> d := (d m)(nm \<mapsto> v), fieldnames := fieldnames m @ [nm] \<rparr>"

definition get_type :: "DFMessage \<Rightarrow> string" where
  "get_type m = name (fmt m)"

text \<open>Attribute access \<^verbatim>\<open>m.X\<close>.\<close>

definition attr :: "DFMessage \<Rightarrow> string \<Rightarrow> error + pyval" where
  "attr m nm = (case d m nm of None \<Rightarrow> Inl AttributeError | Some v \<Rightarrow> Inr v)"

subsection \<open>\<^verbatim>\<open>DFReader._get_gps_time\<close>\<close>

text \<open>
  \<^verbatim>\<open>epoch = 86400*(10*365 + (1980-1969)/4 + 1 + 6 - 2)\<close>, with Python 2's floor division
  on ints.
\<close>

definition gps_epoch :: int where
  "gps_epoch = 86400 * (10 * 365 + (1980 - 1969) div 4 + 1 + 6 - 2)"

definition get_gps_time :: "DFMessage \<Rightarrow> error + real option" where
  "get_gps_time gps =
     (if ''T'' \<in> set (fieldnames gps)
      then bnd (attr gps ''T'') (\<lambda>v. bnd (mul_float v 0.001) (\<lambda>r. Inr (Some r)))
      else
        bnd (if ''Time'' \<in> set (fieldnames gps)
             then bnd (attr gps ''Time'') (\<lambda>v. bnd (mul_float v 0.001) (\<lambda>r. Inr (Some r)))
             else Inr None) (\<lambda>time1.
        bnd (if ''TimeMS'' \<in> set (fieldnames gps)
             then bnd (attr gps ''TimeMS'') (\<lambda>v. bnd (mul_float v 0.001) (\<lambda>r. Inr (Some r)))
             else Inr time1) (\<lambda>time2.
        if ''Week'' \<in> set (fieldnames gps)
        then bnd (attr gps ''Week'') (\<lambda>w.
             bnd (mul_float w (of_int (86400 * 7))) (\<lambda>weeks.
             (case time2 of
                None \<Rightarrow> Inl TypeError
              | Some t \<Rightarrow> Inr (Some (of_int gps_epoch + weeks + t - 15)))))
        else Inr time2)))"

text \<open>The numeric value of a field, for stating properties.\<close>

definition num_field :: "DFMessage \<Rightarrow> string \<Rightarrow> real option" where
  "num_field m nm =
     (case d m nm of
        Some (PInt n) \<Rightarrow> Some (of_int n)
      | Some (PFloat r) \<Rightarrow> Some r
      | _ \<Rightarrow> None)"

subsection \<open>\<^verbatim>\<open>DFReader\<close>: the queue and the timestamps\<close>

text \<open>
  The state of a reader. \<open>formats\<close> is set by both subclasses; its keys are the values
  the decoders use (an int in a binary log, a str in a text log). The entry
  \<^verbatim>\<open>'MAV' : self\<close> of \<^verbatim>\<open>messages\<close> is a reference to the reader itself and is left out.
  The subclasses extend this record by their cursor.
\<close>

record DFReader =
  msg_periods :: "string \<rightharpoonup> real"
  params :: "pyval \<rightharpoonup> pyval"
  reader_timestamp :: int
  messages :: "string \<rightharpoonup> DFMessage"
  flightmode :: string
  percent :: real
  queue :: "DFMessage list"
  last_gps_time :: "real option"
  formats :: "pyval \<rightharpoonup> DFFormat"

definition DFReader_rewind :: "'a DFReader_scheme \<Rightarrow> 'a DFReader_scheme" where
  "DFReader_rewind self =
     self\<lparr> params := Map.empty, reader_timestamp := 0, messages := Map.empty,
           flightmode := ''UNKNOWN'', percent := 0, queue := [], last_gps_time := None \<rparr>"

text \<open>
  The truth value of what \<^verbatim>\<open>_get_gps_time\<close> returns: \<^verbatim>\<open>None\<close> and \<^verbatim>\<open>0.0\<close> are false.
\<close>

definition truthy :: "real option \<Rightarrow> bool" where
  "truthy t = (case t of None \<Rightarrow> False | Some r \<Rightarrow> r \<noteq> 0)"

text \<open>
  \<^verbatim>\<open>while len(self.queue) and self.queue.pop().get_type() != 'GPS': continue\<close>.
  The queue grows and shrinks at its end, so the loop runs over the reversed list.
\<close>

fun pop_loop_rev :: "DFMessage list \<Rightarrow> DFMessage list" where
  "pop_loop_rev [] = []"
| "pop_loop_rev (m # ms) = (if get_type m \<noteq> ''GPS'' then pop_loop_rev ms else ms)"

definition pop_loop :: "DFMessage list \<Rightarrow> DFMessage list" where
  "pop_loop q = rev (pop_loop_rev (rev q))"

text \<open>One iteration of \<^verbatim>\<open>for i in self.queue\<close>: the timestamp of one buffered record.\<close>

definition assign_one ::
  "real \<Rightarrow> real \<Rightarrow> (string \<rightharpoonup> int) \<Rightarrow> DFMessage \<Rightarrow> (string \<rightharpoonup> int) \<times> (string \<rightharpoonup> real) \<Rightarrow>
   error + DFMessage \<times> (string \<rightharpoonup> int) \<times> (string \<rightharpoonup> real)" where
  "assign_one gps_time gps_time_delta counts i cp =
     (case cp of (countdown, periods) \<Rightarrow>
      let i_type = get_type i in
      bnd (if i_type = ''GPS'' \<or> i_type = ''GPS2'' then get_gps_time i else Inr None) (\<lambda>own.
      if (i_type = ''GPS'' \<or> i_type = ''GPS2'') \<and> truthy own
      then Inr (i\<lparr> timestamp := map_option PFloat own \<rparr>, countdown, periods)
      else if ''T'' \<in> set (fieldnames i)
      then bnd (attr i ''T'') (\<lambda>v. Inr (i\<lparr> timestamp := Some v \<rparr>, countdown, periods))
      else
        (case counts i_type of
           None \<Rightarrow> Inl KeyError
         | Some c \<Rightarrow>
             if c = 0 then Inl ZeroDivisionError
             else
               (let period = gps_time_delta / of_int c in
                case countdown i_type of
                  None \<Rightarrow> Inl KeyError
                | Some cd \<Rightarrow>
                    Inr (i\<lparr> timestamp :=
                             Some (PFloat (gps_time - period * of_int cd + period * 0.5)) \<rparr>,
                         countdown(i_type \<mapsto> cd - 1),
                         periods(i_type \<mapsto> period))))))"

fun assign_times ::
  "real \<Rightarrow> real \<Rightarrow> (string \<rightharpoonup> int) \<Rightarrow> DFMessage list \<Rightarrow> (string \<rightharpoonup> int) \<times> (string \<rightharpoonup> real) \<Rightarrow>
   error + DFMessage list \<times> (string \<rightharpoonup> int) \<times> (string \<rightharpoonup> real)" where
  "assign_times gps_time delta counts [] cp = Inr ([], cp)"
| "assign_times gps_time delta counts (i # rest) cp =
     bnd (assign_one gps_time delta counts i cp) (\<lambda>(i', cp').
     bnd (assign_times gps_time delta counts rest cp') (\<lambda>(rest', cp'').
     Inr (i' # rest', cp'')))"

text \<open>
  The order of \<^verbatim>\<open>_timestamp\<close> values in Python 2: numbers by value, and every number
  before every str; strs as byte strings.
\<close>

definition ts_key :: "pyval \<Rightarrow> nat \<times> real \<times> string" where
  "ts_key v =
     (case v of
        PInt n \<Rightarrow> (0, of_int n, [])
      | PFloat r \<Rightarrow> (0, r, [])
      | PStr s \<Rightarrow> (1, 0, s))"

definition msg_key :: "DFMessage \<Rightarrow> nat \<times> real \<times> string" where
  "msg_key m = (case timestamp m of Some v \<Rightarrow> ts_key v | None \<Rightarrow> (0, 0, []))"

text \<open>
  \<^verbatim>\<open>self.queue.sort(reverse=True, key=lambda x: x._timestamp)\<close>: a stable sort in
  descending order (records with equal keys keep their order); reading a missing
  \<^verbatim>\<open>_timestamp\<close> raises.
\<close>

definition sort_queue :: "DFMessage list \<Rightarrow> error + DFMessage list" where
  "sort_queue q =
     (if \<exists>m \<in> set q. timestamp m = None then Inl AttributeError
      else Inr (rev (sort_key msg_key (rev q))))"

text \<open>
  The body of \<^verbatim>\<open>while True\<close> in \<^verbatim>\<open>_fill_msg_queue\<close>. \<open>Continue\<close> is the next iteration
  (with the counts so far), \<open>Return\<close> the value returned and the reader's final state.
\<close>

datatype ('a, 'b) outcome = Continue 'a | Return 'b

definition finish_batch ::
  "real option \<Rightarrow> string option \<Rightarrow> (string \<rightharpoonup> int) \<Rightarrow> 'a DFReader_scheme \<Rightarrow>
   error + 'a DFReader_scheme" where
  "finish_batch gps_time m_type counts self =
     (case gps_time of
        None \<Rightarrow> Inl TypeError
      | Some g \<Rightarrow>
          (case last_gps_time self of
             None \<Rightarrow> Inl TypeError
           | Some l \<Rightarrow>
               (case m_type of
                  None \<Rightarrow> Inl KeyError
                | Some ty \<Rightarrow>
                    (case counts ty of
                       None \<Rightarrow> Inl KeyError
                     | Some c \<Rightarrow>
                         bnd (assign_times g ((g - l) * of_int c) counts (queue self)
                                (counts, msg_periods self)) (\<lambda>(q, countdown, periods).
                         bnd (sort_queue q) (\<lambda>sorted_q.
                         Inr (self\<lparr> last_gps_time := Some g, msg_periods := periods,
                                    queue := sorted_q \<rparr>)))))))"

definition fill_step ::
  "('a DFReader_scheme \<Rightarrow> error + DFMessage option \<times> 'a DFReader_scheme) \<Rightarrow>
   (string \<rightharpoonup> int) \<Rightarrow> 'a DFReader_scheme \<Rightarrow>
   error + ((string \<rightharpoonup> int) \<times> 'a DFReader_scheme, int \<times> 'a DFReader_scheme) outcome" where
  "fill_step parse_next counts self =
     bnd (parse_next self) (\<lambda>(m, self1).
     let m_type = map_option get_type m;
         counts1 = (case m of
                      Some msg \<Rightarrow>
                        counts(get_type msg \<mapsto>
                          (case counts (get_type msg) of None \<Rightarrow> 0 | Some c \<Rightarrow> c) + 1)
                    | None \<Rightarrow> counts);
         self2 = (case m of
                    Some msg \<Rightarrow> self1\<lparr> queue := queue self1 @ [msg] \<rparr>
                  | None \<Rightarrow> self1\<lparr> queue := pop_loop (queue self1) \<rparr>)
     in
     if queue self2 = [] then Inr (Return (0, self2))
     else
       bnd (case m of
              Some msg \<Rightarrow>
                if get_type msg = ''GPS''
                then bnd (get_gps_time msg) (\<lambda>t. Inr (if truthy t then t else None))
                else Inr None
            | None \<Rightarrow> Inr None) (\<lambda>gps_time.
       if gps_time \<noteq> None \<and> last_gps_time self2 = None
       then Inr (Continue (counts1, self2\<lparr> last_gps_time := gps_time \<rparr>))
       else if gps_time \<noteq> None \<or> m = None
       then bnd (finish_batch gps_time m_type counts1 self2) (\<lambda>self3.
            Inr (Return (int (length (queue self3)), self3)))
       else Inr (Continue (counts1, self2))))"

text \<open>
  \<^verbatim>\<open>while True\<close>: nothing in \<^verbatim>\<open>_fill_msg_queue\<close> bounds the number of iterations, so
  the loop is a partial function and \<open>None\<close> stands for a loop that never ends.
\<close>

partial_function (option) fill_loop ::
  "('a DFReader_scheme \<Rightarrow> error + DFMessage option \<times> 'a DFReader_scheme) \<Rightarrow>
   (string \<rightharpoonup> int) \<Rightarrow> 'a DFReader_scheme \<Rightarrow>
   (error + int \<times> 'a DFReader_scheme) option" where
  "fill_loop parse_next counts self =
     (case fill_step parse_next counts self of
        Inl e \<Rightarrow> Some (Inl e)
      | Inr (Continue (counts', self')) \<Rightarrow> fill_loop parse_next counts' self'
      | Inr (Return r) \<Rightarrow> Some (Inr r))"

text \<open>
  \<^verbatim>\<open>_fill_msg_queue\<close>. The value returned is \<^verbatim>\<open>None\<close> for the bare \<^verbatim>\<open>return\<close> of a
  non-empty queue, and an int otherwise.
\<close>

definition fill_msg_queue ::
  "('a DFReader_scheme \<Rightarrow> error + DFMessage option \<times> 'a DFReader_scheme) \<Rightarrow>
   'a DFReader_scheme \<Rightarrow> (error + int option \<times> 'a DFReader_scheme) option" where
  "fill_msg_queue parse_next self =
     (if queue self \<noteq> [] then Some (Inr (None, self))
      else map_option (map_sum id (\<lambda>(n, self'). (Some n, self')))
             (fill_loop parse_next Map.empty self))"

text \<open>\<^verbatim>\<open>_update_state\<close> and \<^verbatim>\<open>recv_msg\<close>.\<close>

definition update_state ::
  "builtins \<Rightarrow> 'a DFReader_scheme \<Rightarrow> DFMessage \<Rightarrow> error + 'a DFReader_scheme" where
  "update_state py self m =
     (let ty = get_type m;
          self1 = self\<lparr> messages := (messages self)(ty \<mapsto> m) \<rparr> in
      bnd (if ty = ''PARM''
           then bnd (attr m ''Value'') (\<lambda>v. bnd (attr m ''Name'') (\<lambda>k.
                  Inr (self1\<lparr> params := (params self1)(k \<mapsto> v) \<rparr>)))
           else Inr self1) (\<lambda>self2.
      if ty = ''MODE''
      then bnd (attr m ''Mode'') (\<lambda>mode.
           (case mode of
              PStr s \<Rightarrow> Inr (self2\<lparr> flightmode := upper s \<rparr>)
            | _ \<Rightarrow>
                if ''ModeNum'' \<in> set (fieldnames m)
                then bnd (attr m ''ModeNum'') (\<lambda>n.
                       Inr (self2\<lparr> flightmode := mode_string_apm py n \<rparr>))
                else Inr (self2\<lparr> flightmode := mode_string_acm py mode \<rparr>)))
      else Inr self2))"

definition recv_msg ::
  "builtins \<Rightarrow> ('a DFReader_scheme \<Rightarrow> error + DFMessage option \<times> 'a DFReader_scheme) \<Rightarrow>
   'a DFReader_scheme \<Rightarrow> (error + DFMessage option \<times> 'a DFReader_scheme) option" where
  "recv_msg py parse_next self =
     (case (if queue self = [] then fill_msg_queue parse_next self else Some (Inr (None, self))) of
        None \<Rightarrow> None
      | Some (Inl e) \<Rightarrow> Some (Inl e)
      | Some (Inr (r, self1)) \<Rightarrow>
          Some (if queue self1 = [] then Inr (None, self1)
                else bnd (update_state py (self1\<lparr> queue := butlast (queue self1) \<rparr>)
                            (last (queue self1)))
                       (\<lambda>self2. Inr (Some (last (queue self1)), self2))))"

subsection \<open>\<^verbatim>\<open>DFReader_binary\<close>\<close>

text \<open>
  A key of the \<^verbatim>\<open>formats\<close> dictionary: Python finds a float with an integral value under
  the equal int.
\<close>

definition dict_key :: "pyval \<Rightarrow> pyval" where
  "dict_key v =
     (case v of
        PFloat r \<Rightarrow> if r = of_int \<lfloor>r\<rfloor> then PInt \<lfloor>r\<rfloor> else PFloat r
      | _ \<Rightarrow> v)"

text \<open>\<^verbatim>\<open>xs[a:b]\<close>, with Python's treatment of negative and too large bounds.\<close>

definition slice :: "'a list \<Rightarrow> int \<Rightarrow> int \<Rightarrow> 'a list" where
  "slice xs a b =
     (let n = int (length xs);
          lo = (if a < 0 then max 0 (a + n) else min a n);
          hi = (if b < 0 then max 0 (b + n) else min b n)
      in take (nat (hi - lo)) (drop (nat lo) xs))"

text \<open>
  \<^verbatim>\<open>struct.unpack\<close> on a little-endian, unpadded format: the body must have exactly
  the size of the format; ints are read least significant byte first.
\<close>

fun scode_size :: "scode \<Rightarrow> nat" where
  "scode_size Sb = 1"
| "scode_size SB = 1"
| "scode_size Sh = 2"
| "scode_size SH = 2"
| "scode_size Si = 4"
| "scode_size SI = 4"
| "scode_size Sf = 4"
| "scode_size (Ss n) = n"
| "scode_size Sq = 8"
| "scode_size SQ = 8"

fun le_nat :: "string \<Rightarrow> nat" where
  "le_nat [] = 0"
| "le_nat (c # cs) = of_char c + 256 * le_nat cs"

definition le_int :: "string \<Rightarrow> int" where
  "le_int bs =
     (let v = int (le_nat bs); w = 2 ^ (8 * length bs) in if w \<le> 2 * v then v - w else v)"

fun unpack_one :: "builtins \<Rightarrow> scode \<Rightarrow> string \<Rightarrow> pyval" where
  "unpack_one py Sb bs = PInt (le_int bs)"
| "unpack_one py SB bs = PInt (int (le_nat bs))"
| "unpack_one py Sh bs = PInt (le_int bs)"
| "unpack_one py SH bs = PInt (int (le_nat bs))"
| "unpack_one py Si bs = PInt (le_int bs)"
| "unpack_one py SI bs = PInt (int (le_nat bs))"
| "unpack_one py Sf bs = PFloat (float_of_bits py (le_nat bs))"
| "unpack_one py (Ss n) bs = PStr bs"
| "unpack_one py Sq bs = PInt (le_int bs)"
| "unpack_one py SQ bs = PInt (int (le_nat bs))"

fun unpack_fields :: "builtins \<Rightarrow> scode list \<Rightarrow> string \<Rightarrow> pyval list" where
  "unpack_fields py [] bs = []"
| "unpack_fields py (sc # scs) bs =
     unpack_one py sc (take (scode_size sc) bs) # unpack_fields py scs (drop (scode_size sc) bs)"

definition struct_unpack :: "builtins \<Rightarrow> scode list \<Rightarrow> string \<Rightarrow> error + pyval list" where
  "struct_unpack py codes body =
     (if length body = sum_list (map scode_size codes) then Inr (unpack_fields py codes body)
      else Inl StructError)"

record DFReader_binary = DFReader +
  data :: string
  HEAD1 :: nat
  HEAD2 :: nat
  offset :: int
  remaining :: int

text \<open>\<^verbatim>\<open>null_term(elements[i])\<close>: the element must be a str.\<close>

definition null_term_elem :: "pyval list \<Rightarrow> nat \<Rightarrow> error + string" where
  "null_term_elem elements i =
     bnd (idx elements i) (\<lambda>v.
       (case v of PStr s \<Rightarrow> Inr (null_term s) | _ \<Rightarrow> Inl AttributeError))"

text \<open>
  The registration of a new type by a record whose format is named \<^verbatim>\<open>FMT\<close>:
  only when \<^verbatim>\<open>elements[0]\<close> is not yet a key of \<^verbatim>\<open>formats\<close>.
\<close>

definition binary_register ::
  "pyval list \<Rightarrow> (pyval \<rightharpoonup> DFFormat) \<Rightarrow> error + (pyval \<rightharpoonup> DFFormat)" where
  "binary_register elements fs =
     bnd (idx elements 0) (\<lambda>e0.
       if fs (dict_key e0) = None
       then bnd (null_term_elem elements 2) (\<lambda>nm.
            bnd (idx elements 1) (\<lambda>ln0.
            bnd (null_term_elem elements 3) (\<lambda>fm.
            bnd (null_term_elem elements 4) (\<lambda>cols.
            bnd (DFFormat_init nm ln0 fm cols) (\<lambda>f.
            Inr (fs(dict_key e0 \<mapsto> f)))))))
       else Inr fs)"

text \<open>
  \<^verbatim>\<open>DFReader_binary._parse_next\<close>, in two parts: \<open>binary_decode\<close> is what follows the
  header, for the type byte \<open>h2\<close>, once the cursor has moved past the three header bytes.
\<close>

definition binary_decode ::
  "builtins \<Rightarrow> DFReader_binary \<Rightarrow> nat \<Rightarrow> error + DFMessage option \<times> DFReader_binary" where
  "binary_decode py self msg_type =
     (case formats self (PInt (int msg_type)) of
        None \<Rightarrow> Inl (UnknownMessageType msg_type)
      | Some f \<Rightarrow>
          (case len f of
             PStr s \<Rightarrow> Inl TypeError
           | PFloat r \<Rightarrow>
               if of_int (remaining self) < r - 3 then Inr (None, self) else Inl TypeError
           | PInt n \<Rightarrow>
               if remaining self < n - 3 then Inr (None, self)
               else
                 let body = slice (data self) (offset self) (offset self + (n - 3)) in
                 bnd (struct_unpack py (msg_struct f) body) (\<lambda>elements.
                 bnd (if null_term (name f) = ''FMT''
                      then binary_register elements (formats self)
                      else Inr (formats self)) (\<lambda>fs.
                 let self1 = self\<lparr> formats := fs, offset := offset self + (n - 3),
                                  remaining := remaining self - (n - 3) \<rparr> in
                 bnd (DFMessage_init py f elements True) (\<lambda>m.
                 if length (data self1) = 0 then Inl ZeroDivisionError
                 else Inr (Some m,
                        self1\<lparr> percent :=
                          100 * (of_int (offset self1) / of_int (int (length (data self1)))) \<rparr>))))))"

definition binary_parse_next ::
  "builtins \<Rightarrow> DFReader_binary \<Rightarrow> error + DFMessage option \<times> DFReader_binary" where
  "binary_parse_next py self =
     (if int (length (data self)) - offset self < 3 then Inr (None, self)
      else
        let hdr = slice (data self) (offset self) (offset self + 3) in
        bnd (idx hdr 0) (\<lambda>h0.
        if of_char h0 \<noteq> HEAD1 self then Inr (None, self)
        else
        bnd (idx hdr 1) (\<lambda>h1.
        if of_char h1 \<noteq> HEAD2 self then Inr (None, self)
        else
        bnd (idx hdr 2) (\<lambda>h2.
        binary_decode py (self\<lparr> offset := offset self + 3, remaining := remaining self - 3 \<rparr>)
          (of_char h2)))))"

text \<open>The built-in schema of the schema-declaration record, and the two constructors.\<close>

definition FMT_format :: "error + DFFormat" where
  "FMT_format = DFFormat_init ''FMT'' (PInt 89) ''BBnNZ'' ''Type,Length,Name,Format,Columns''"

definition empty_reader :: DFReader where
  "empty_reader =
     \<lparr> msg_periods = Map.empty, params = Map.empty, reader_timestamp = 0,
       messages = Map.empty, flightmode = ''UNKNOWN'', percent = 0, queue = [],
       last_gps_time = None, formats = Map.empty \<rparr>"

definition binary_rewind :: "DFReader_binary \<Rightarrow> DFReader_binary" where
  "binary_rewind self =
     (DFReader_rewind self)\<lparr> offset := 0, remaining := int (length (data self)) \<rparr>"

definition DFReader_binary_init :: "string \<Rightarrow> error + DFReader_binary" where
  "DFReader_binary_init bytes =
     bnd FMT_format (\<lambda>f.
       Inr (binary_rewind
         (DFReader.extend (empty_reader\<lparr> formats := [PInt 0x80 \<mapsto> f] \<rparr>)
            (DFReader_binary.fields bytes 0xA3 0x95 0 0))))"

subsection \<open>\<^verbatim>\<open>DFReader_text\<close>\<close>

record DFReader_text = DFReader +
  lines :: "string list"
  line :: nat

definition startswith :: "string \<Rightarrow> string \<Rightarrow> bool" where
  "startswith s p = (take (length p) s = p)"

text \<open>The loop of \<^verbatim>\<open>DFReader_text._rewind\<close>: the first line that starts with \<^verbatim>\<open>"FMT, "\<close>.\<close>

function first_fmt_line :: "string list \<Rightarrow> nat \<Rightarrow> nat" where
  "first_fmt_line ls n =
     (if n < length ls
      then (if startswith (ls ! n) ''FMT, '' then n else first_fmt_line ls (n + 1))
      else n)"
  by pat_completeness auto
termination
  by (relation "measure (\<lambda>(ls, n). length ls - n)") auto

definition text_rewind :: "DFReader_text \<Rightarrow> DFReader_text" where
  "text_rewind self = (DFReader_rewind self)\<lparr> line := first_fmt_line (lines self) 0 \<rparr>"

text \<open>
  The first loop of \<^verbatim>\<open>DFReader_text._parse_next\<close>. It returns the cursor and the
  variable \<^verbatim>\<open>elements\<close>, which is \<open>None\<close> as long as no line has been read.
\<close>

function next_elements ::
  "string list \<Rightarrow> nat \<Rightarrow> string list option \<Rightarrow> nat \<times> string list option" where
  "next_elements ls n elements =
     (if n < length ls
      then (let el = split (rstrip (ls ! n)) '', '' in
            if 2 \<le> length el then (n + 1, Some el) else next_elements ls (n + 1) (Some el))
      else (n, elements))"
  by pat_completeness auto
termination
  by (relation "measure (\<lambda>(ls, n, elements). length ls - n)") auto

text \<open>
  The registration of a type by a text line whose format is named \<^verbatim>\<open>FMT\<close>;
  \<open>elements\<close> are the tokens after the type name.
\<close>

definition text_register ::
  "builtins \<Rightarrow> string list \<Rightarrow> (pyval \<rightharpoonup> DFFormat) \<Rightarrow> error + (pyval \<rightharpoonup> DFFormat)" where
  "text_register py elements fs =
     bnd (idx elements 2) (\<lambda>nm.
     bnd (idx elements 1) (\<lambda>e1.
     bnd (py_int py (PStr e1)) (\<lambda>ln0.
     bnd (idx elements 3) (\<lambda>fm.
     bnd (idx elements 4) (\<lambda>cols.
     bnd (DFFormat_init nm ln0 fm cols) (\<lambda>f.
     Inr (fs(PStr nm \<mapsto> f))))))))"

text \<open>
  \<^verbatim>\<open>DFReader_text._parse_next\<close>, in two parts: \<open>text_decode\<close> is what follows the
  test \<^verbatim>\<open>if self.line >= len(self.lines): return None\<close>.
\<close>

definition text_decode ::
  "builtins \<Rightarrow> DFReader_text \<Rightarrow> string list \<Rightarrow> error + DFMessage option \<times> DFReader_text" where
  "text_decode py self elements =
     bnd (idx elements 0) (\<lambda>msg_type.
     (case formats self (PStr msg_type) of
        None \<Rightarrow> Inr (None, self)
      | Some f \<Rightarrow>
          if length elements < length (format f) + 1 then Inr (None, self)
          else
            let elements1 = tl elements in
            bnd (if rstrip_nul (name f) = ''FMT''
                 then text_register py elements1 (formats self)
                 else Inr (formats self)) (\<lambda>fs.
            let self1 = self\<lparr> formats := fs \<rparr> in
            bnd (DFMessage_init py f (map PStr elements1) False) (\<lambda>m.
            Inr (Some (add_value m ''line'' (PInt (int (line self1)))), self1)))))"

definition text_parse_next ::
  "builtins \<Rightarrow> DFReader_text \<Rightarrow> error + DFMessage option \<times> DFReader_text" where
  "text_parse_next py self =
     (case next_elements (lines self) (line self) None of
        (n, None) \<Rightarrow> Inl UnboundLocalError
      | (n, Some el) \<Rightarrow>
          let elements = (if length el = 5 \<and> last el = '','' then butlast el @ [[], []] else el);
              self1 = self\<lparr> line := n \<rparr> in
          if length (lines self1) = 0 then Inl ZeroDivisionError
          else
            let self2 = self1\<lparr> percent :=
                          100 * (of_nat (line self1) / of_nat (length (lines self1))) \<rparr> in
            if length (lines self2) \<le> line self2 then Inr (None, self2)
            else text_decode py self2 elements)"

definition DFReader_text_init :: "string list \<Rightarrow> error + DFReader_text" where
  "DFReader_text_init ls =
     bnd FMT_format (\<lambda>f.
       Inr (text_rewind
         (DFReader.extend (empty_reader\<lparr> formats := [PStr ''FMT'' \<mapsto> f] \<rparr>)
            (DFReader_text.fields ls 0))))"

subsection \<open>Sample records\<close>

text \<open>
  A decoded record of type \<open>ty\<close> with the given fields, as the reconstructor sees it:
  only the type name, the field names and the field values matter there.
\<close>

definition sample_msg :: "string \<Rightarrow> (string \<times> pyval) list \<Rightarrow> DFMessage" where
  "sample_msg ty kvs =
     \<lparr> d = map_of kvs,
       fmt = \<lparr> name = ty, len = PInt 0, format = [], columns = map fst kvs,
               msg_struct = [], msg_types = [], msg_mults = [] \<rparr>,
       fieldnames = map fst kvs, timestamp = None \<rparr>"

subsection \<open>Sample builtins and readers\<close>

text \<open>
  Stand-ins for the builtins, to run the model on concrete logs: \<open>dec_int\<close> and
  \<open>dec_real\<close> read a plain decimal literal (an optional minus sign, digits, and for
  \<open>dec_real\<close> an optional fraction), as \<^verbatim>\<open>int\<close> and \<^verbatim>\<open>float\<close> do on such a str.
  The other fields are not reached by the logs evaluated below.
\<close>

definition digit_val :: "char \<Rightarrow> nat option" where
  "digit_val c =
     (let n = (of_char c :: nat) in if 48 \<le> n \<and> n \<le> 57 then Some (n - 48) else None)"

fun dec_digits :: "nat \<Rightarrow> string \<Rightarrow> nat option" where
  "dec_digits acc [] = Some acc"
| "dec_digits acc (c # cs) =
     (case digit_val c of None \<Rightarrow> None | Some k \<Rightarrow> dec_digits (10 * acc + k) cs)"

definition dec_nat :: "string \<Rightarrow> nat option" where
  "dec_nat s = (if s = [] then None else dec_digits 0 s)"

definition dec_int :: "string \<Rightarrow> int option" where
  "dec_int s =
     (case s of
        [] \<Rightarrow> None
      | c # cs \<Rightarrow> if c = CHR ''-'' then map_option (\<lambda>n. - int n) (dec_nat cs)
                  else map_option int (dec_nat s))"

definition dec_frac :: "string \<Rightarrow> real option" where
  "dec_frac s =
     (let whole = takeWhile (\<lambda>c. c \<noteq> CHR ''.'') s;
          rest = dropWhile (\<lambda>c. c \<noteq> CHR ''.'') s
      in case dec_nat whole of
           None \<Rightarrow> None
         | Some w \<Rightarrow>
             if rest = [] then Some (of_nat w)
             else (case dec_digits 0 (tl rest) of
                     None \<Rightarrow> None
                   | Some f \<Rightarrow> Some (of_nat w + of_nat f / 10 ^ length (tl rest))))"

definition dec_real :: "string \<Rightarrow> real option" where
  "dec_real s =
     (case s of
        [] \<Rightarrow> None
      | c # cs \<Rightarrow> if c = CHR ''-'' then map_option uminus (dec_frac cs) else dec_frac s)"

definition sample_builtins :: builtins where
  "sample_builtins =
     \<lparr> int_of_str = dec_int, float_of_str = dec_real,
       str_of_int = (\<lambda>n. []), str_of_float = (\<lambda>r. []),
       float_of_bits = (\<lambda>n. 0),
       mode_string_apm = (\<lambda>v. ''UNKNOWN''), mode_string_acm = (\<lambda>v. ''UNKNOWN'') \<rparr>"

text \<open>A text reader and a binary reader in a given state, everything else as after a rewind.\<close>

definition text_reader ::
  "(pyval \<rightharpoonup> DFFormat) \<Rightarrow> string list \<Rightarrow> nat \<Rightarrow> real \<Rightarrow> DFReader_text" where
  "text_reader fs ls n p =
     DFReader.extend (empty_reader\<lparr> formats := fs, percent := p \<rparr>) (DFReader_text.fields ls n)"

definition binary_reader :: "(pyval \<rightharpoonup> DFFormat) \<Rightarrow> string \<Rightarrow> int \<Rightarrow> DFReader_binary" where
  "binary_reader fs bytes off =
     DFReader.extend (empty_reader\<lparr> formats := fs \<rparr>)
       (DFReader_binary.fields bytes 0xA3 0x95 off (int (length bytes) - off))"

text \<open>The built-in schema, and a schema with two fixed-point fields, written out.\<close>

definition FMT_fmt :: DFFormat where
  "FMT_fmt =
     \<lparr> name = ''FMT'', len = PInt 89, format = ''BBnNZ'',
       columns = [''Type'', ''Length'', ''Name'', ''Format'', ''Columns''],
       msg_struct = [SB, SB, Ss 4, Ss 16, Ss 64],
       msg_types = [TInt, TInt, TStr, TStr, TStr],
       msg_mults = [None, None, None, None, None] \<rparr>"

definition ATT_fmt :: DFFormat where
  "ATT_fmt =
     \<lparr> name = ''ATT'', len = PInt 7, format = ''cc'', columns = [''Roll'', ''Pitch''],
       msg_struct = [Sh, Sh], msg_types = [TFloat, TFloat],
       msg_mults = [Some 0.01, Some 0.01] \<rparr>"

text \<open>
  What a caller sees of a call: the exception, or the record returned (its type and its
  fields in order), and the state left behind.
\<close>

definition returned ::
  "error + DFMessage option \<times> 'a \<Rightarrow> error + (string \<times> (string \<times> pyval option) list) option" where
  "returned r =
     map_sum id
       (\<lambda>(m, s). map_option (\<lambda>m. (get_type m, map (\<lambda>k. (k, d m k)) (fieldnames m))) m) r"

definition state_of :: "error + 'b \<times> 'a \<Rightarrow> 'a option" where
  "state_of r = (case r of Inl e \<Rightarrow> None | Inr (x, s) \<Rightarrow> Some s)"

definition unknown_type_log :: "string list" where
  "unknown_type_log = [''XYZ, 1, 2'', ''ATT, 1.5, -20'', ''ATT, 3, 4'']"

subsection \<open>A decoder over records already decoded\<close>

text \<open>
  \<^verbatim>\<open>_fill_msg_queue\<close> and \<^verbatim>\<open>recv_msg\<close> belong to the base class and see a decoder only
  through \<^verbatim>\<open>_parse_next\<close>. To state what they do with a given sequence of records, the
  following reader holds the records that its \<^verbatim>\<open>_parse_next\<close> will return, in order;
  after the last one it returns \<^verbatim>\<open>None\<close>.
\<close>

record DFReader_stream = DFReader +
  pending :: "DFMessage list"

definition stream_parse_next ::
  "DFReader_stream \<Rightarrow> error + DFMessage option \<times> DFReader_stream" where
  "stream_parse_next self =
     (case pending self of
        [] \<Rightarrow> Inr (None, self)
      | m # ms \<Rightarrow> Inr (Some m, self\<lparr> pending := ms \<rparr>))"

text \<open>
  A stream reader with the given records to come, queue, last anchor time and learned
  periods; everything else as after a rewind.
\<close>

definition stream_reader ::
  "DFMessage list \<Rightarrow> DFMessage list \<Rightarrow> real option \<Rightarrow> (string \<rightharpoonup> real) \<Rightarrow> DFReader_stream" where
  "stream_reader ms q l per =
     DFReader.extend (empty_reader\<lparr> queue := q, last_gps_time := l, msg_periods := per \<rparr>)
       (DFReader_stream.fields ms)"

text \<open>\<^verbatim>\<open>counts[t] = counts.get(t, 0) + 1\<close>.\<close>

definition bump :: "(string \<rightharpoonup> int) \<Rightarrow> string \<Rightarrow> (string \<rightharpoonup> int)" where
  "bump counts t = counts(t \<mapsto> (case counts t of None \<Rightarrow> 0 | Some c \<Rightarrow> c) + 1)"

text \<open>A record that the batching loop takes as a time anchor.\<close>

definition is_anchor :: "DFMessage \<Rightarrow> bool" where
  "is_anchor m =
     (get_type m = ''GPS'' \<and> (case get_gps_time m of Inr (Some t) \<Rightarrow> t \<noteq> 0 | _ \<Rightarrow> False))"

text \<open>
  The timestamps that a run of \<open>cd\<close> records of one type gets from an anchor at \<open>g\<close>
  and a period \<open>p\<close>: record number \<open>j\<close> of the run is put at
  \<open>g - p * (cd - j) + p / 2\<close>.
\<close>

definition stamp :: "DFMessage \<Rightarrow> real \<Rightarrow> DFMessage" where
  "stamp m t = m\<lparr> timestamp := Some (PFloat t) \<rparr>"

fun spread :: "real \<Rightarrow> real \<Rightarrow> int \<Rightarrow> DFMessage list \<Rightarrow> DFMessage list" where
  "spread g p cd [] = []"
| "spread g p cd (x # xs) = stamp x (g - p * of_int cd + p * 0.5) # spread g p (cd - 1) xs"

text \<open>
  The timestamp of record number \<open>j\<close> out of \<open>k\<close> between anchors at \<open>T0\<close> and
  \<open>T1\<close>, when the batch holds \<open>c\<close> records of type GPS.
\<close>

definition slot_time :: "real \<Rightarrow> real \<Rightarrow> real \<Rightarrow> nat \<Rightarrow> nat \<Rightarrow> real" where
  "slot_time c T0 T1 k j =
     T1 - c * (T1 - T0) + (2 * real j + 1) * (c * (T1 - T0) / (2 * real k))"

definition sample_gps :: "int \<Rightarrow> DFMessage" where
  "sample_gps ms = sample_msg ''GPS'' [(''T'', PInt ms)]"

definition sample_gps2 :: "int \<Rightarrow> DFMessage" where
  "sample_gps2 ms = sample_msg ''GPS2'' [(''T'', PInt ms)]"

definition sample_att :: "int \<Rightarrow> DFMessage" where
  "sample_att r = sample_msg ''ATT'' [(''Roll'', PInt r)]"

subsection \<open>Successive calls of \<^verbatim>\<open>recv_msg\<close>\<close>

text \<open>
  What \<open>n\<close> calls of \<^verbatim>\<open>recv_msg\<close> in a row return, as the loop of the command-line
  driver makes them; the first exception ends the run.
\<close>

fun recv_n ::
  "builtins \<Rightarrow> ('a DFReader_scheme \<Rightarrow> error + DFMessage option \<times> 'a DFReader_scheme) \<Rightarrow>
   nat \<Rightarrow> 'a DFReader_scheme \<Rightarrow> (error + DFMessage option list \<times> 'a DFReader_scheme) option" where
  "recv_n py parse_next 0 self = Some (Inr ([], self))"
| "recv_n py parse_next (Suc n) self =
     (case recv_msg py parse_next self of
        None \<Rightarrow> None
      | Some (Inl e) \<Rightarrow> Some (Inl e)
      | Some (Inr (m, self1)) \<Rightarrow>
          (case recv_n py parse_next n self1 of
             None \<Rightarrow> None
           | Some (Inl e) \<Rightarrow> Some (Inl e)
           | Some (Inr (ms, self2)) \<Rightarrow> Some (Inr (m # ms, self2))))"

section \<open>Properties\<close>

lemma mul_float_num:
  "num_field m nm = Some x \<Longrightarrow> bnd (attr m nm) (\<lambda>v. bnd (mul_float v c) g) = g (x * c)"
  by (auto simp: num_field_def attr_def bnd_def mul_float_def split: option.splits pyval.splits)

lemma num_fieldD:
  "num_field m nm = Some x \<Longrightarrow> \<exists>v. attr m nm = Inr v \<and> (\<forall>c. mul_float v c = Inr (x * c))"
  by (auto simp: num_field_def attr_def mul_float_def split: option.splits pyval.splits)

subsection \<open>GPS time\<close>

text \<open>
  C7. A GPS record with a field \<^verbatim>\<open>T\<close> has the time \<open>T * 0.001\<close>, whatever else it
  holds. A GPS record without \<^verbatim>\<open>T\<close>, with a field \<^verbatim>\<open>Week\<close> and a millisecond time field
  (\<^verbatim>\<open>TimeMS\<close> if present, else \<^verbatim>\<open>Time\<close>) has the time
  \<open>gps_epoch + 604800 * Week + 0.001 * time_ms - 15\<close>, where \<open>gps_epoch\<close> is
  \<open>86400 * (10 * 365 + (1980 - 1969) div 4 + 1 + 6 - 2) = 315964800\<close>.
  The fields read are numbers (ints or floats); floats are exact reals here.
\<close>

theorem get_gps_time_formula:
  "(''T'' \<in> set (fieldnames gps) \<and> num_field gps ''T'' = Some t
      \<longrightarrow> get_gps_time gps = Inr (Some (t * 0.001)))
   \<and> (''T'' \<notin> set (fieldnames gps) \<and> ''Week'' \<in> set (fieldnames gps)
       \<and> num_field gps ''Week'' = Some week
       \<and> (''Time'' \<in> set (fieldnames gps) \<or> ''TimeMS'' \<in> set (fieldnames gps))
       \<and> (''Time'' \<in> set (fieldnames gps) \<longrightarrow> num_field gps ''Time'' = Some t1)
       \<and> (''TimeMS'' \<in> set (fieldnames gps) \<longrightarrow> num_field gps ''TimeMS'' = Some t2)
       \<and> time_ms = (if ''TimeMS'' \<in> set (fieldnames gps) then t2 else t1)
      \<longrightarrow> get_gps_time gps = Inr (Some (of_int gps_epoch + 604800 * week + 0.001 * time_ms - 15))
          \<and> gps_epoch = 86400 * (10 * 365 + (1980 - 1969) div 4 + 1 + 6 - 2)
          \<and> gps_epoch = 315964800)"
proof (intro conjI impI)
  assume "''T'' \<in> set (fieldnames gps) \<and> num_field gps ''T'' = Some t"
  then show "get_gps_time gps = Inr (Some (t * 0.001))"
    by (simp add: get_gps_time_def mul_float_num)
next
  assume a: "''T'' \<notin> set (fieldnames gps) \<and> ''Week'' \<in> set (fieldnames gps)
       \<and> num_field gps ''Week'' = Some week
       \<and> (''Time'' \<in> set (fieldnames gps) \<or> ''TimeMS'' \<in> set (fieldnames gps))
       \<and> (''Time'' \<in> set (fieldnames gps) \<longrightarrow> num_field gps ''Time'' = Some t1)
       \<and> (''TimeMS'' \<in> set (fieldnames gps) \<longrightarrow> num_field gps ''TimeMS'' = Some t2)
       \<and> time_ms = (if ''TimeMS'' \<in> set (fieldnames gps) then t2 else t1)"
  from a obtain w where w: "attr gps ''Week'' = Inr w" "\<And>c. mul_float w c = Inr (week * c)"
    using num_fieldD by blast
  show "get_gps_time gps = Inr (Some (of_int gps_epoch + 604800 * week + 0.001 * time_ms - 15))"
  proof (cases "''TimeMS'' \<in> set (fieldnames gps)")
    case True
    with a obtain v where v: "attr gps ''TimeMS'' = Inr v" "\<And>c. mul_float v c = Inr (t2 * c)"
      using num_fieldD by blast
    show ?thesis
    proof (cases "''Time'' \<in> set (fieldnames gps)")
      case True
      with a obtain u where u: "attr gps ''Time'' = Inr u" "\<And>c. mul_float u c = Inr (t1 * c)"
        using num_fieldD by blast
      from a True \<open>''TimeMS'' \<in> set (fieldnames gps)\<close> show ?thesis
        by (simp add: get_gps_time_def bnd_def u v w)
    next
      case False
      with a \<open>''TimeMS'' \<in> set (fieldnames gps)\<close> show ?thesis
        by (simp add: get_gps_time_def bnd_def v w)
    qed
  next
    case False
    with a obtain u where u: "attr gps ''Time'' = Inr u" "\<And>c. mul_float u c = Inr (t1 * c)"
      using num_fieldD by blast
    from a False show ?thesis
      by (simp add: get_gps_time_def bnd_def u w)
  qed
next
  show "gps_epoch = 86400 * (10 * 365 + (1980 - 1969) div 4 + 1 + 6 - 2)"
    by (simp add: gps_epoch_def)
next
  show "gps_epoch = 315964800" by (simp add: gps_epoch_def)
qed

theorem get_gps_time_formula_witness:
  "get_gps_time (sample_msg ''GPS'' [(''T'', PInt 5000), (''Week'', PInt 1800)]) = Inr (Some 5)
   \<and> get_gps_time (sample_msg ''GPS'' [(''TimeMS'', PInt 5000), (''Week'', PInt 1800)])
       = Inr (Some 1404604790)"
proof -
  let ?a = "sample_msg ''GPS'' [(''T'', PInt 5000), (''Week'', PInt 1800)]"
  let ?b = "sample_msg ''GPS'' [(''TimeMS'', PInt 5000), (''Week'', PInt 1800)]"
  have a: "''T'' \<in> set (fieldnames ?a) \<and> num_field ?a ''T'' = Some 5000"
    by (simp add: sample_msg_def num_field_def)
  have b: "''T'' \<notin> set (fieldnames ?b) \<and> ''Week'' \<in> set (fieldnames ?b)
       \<and> num_field ?b ''Week'' = Some 1800
       \<and> (''Time'' \<in> set (fieldnames ?b) \<or> ''TimeMS'' \<in> set (fieldnames ?b))
       \<and> (''Time'' \<in> set (fieldnames ?b) \<longrightarrow> num_field ?b ''Time'' = Some 0)
       \<and> (''TimeMS'' \<in> set (fieldnames ?b) \<longrightarrow> num_field ?b ''TimeMS'' = Some 5000)
       \<and> (5000::real) = (if ''TimeMS'' \<in> set (fieldnames ?b) then 5000 else 0)"
    by (simp add: sample_msg_def num_field_def)
  from a get_gps_time_formula [of ?a 5000]
  have "get_gps_time ?a = Inr (Some 5)" by simp
  moreover from b get_gps_time_formula [where gps = ?b and week = 1800 and ?t1.0 = 0 and ?t2.0 = 5000 and time_ms = 5000]
  have "get_gps_time ?b = Inr (Some 1404604790)" by (simp add: gps_epoch_def)
  ultimately show ?thesis by simp
qed

subsection \<open>The text decoder\<close>

lemma text_reader_sel:
  "lines (text_reader fs ls n p) = ls"
  "line (text_reader fs ls n p) = n"
  "formats (text_reader fs ls n p) = fs"
  "percent (text_reader fs ls n p) = p"
  "queue (text_reader fs ls n p) = []"
  "last_gps_time (text_reader fs ls n p) = None"
  by (simp_all add: text_reader_def DFReader.extend_def DFReader_text.fields_def empty_reader_def)

lemma text_reader_upd:
  "(text_reader fs ls n p)\<lparr> line := k \<rparr> = text_reader fs ls k p"
  "(text_reader fs ls n p)\<lparr> percent := q \<rparr> = text_reader fs ls n q"
  "(text_reader fs ls n p)\<lparr> formats := g \<rparr> = text_reader g ls n p"
  by (simp_all add: text_reader_def DFReader.extend_def DFReader_text.fields_def empty_reader_def)

lemma FMT_format_eq: "FMT_format = Inr FMT_fmt"
  by (simp add: FMT_format_def FMT_fmt_def DFFormat_init_def bnd_def FORMAT_TO_STRUCT_def split_def)

lemma next_elements_bound:
  "next_elements ls n e = (k, r) \<Longrightarrow> n < length ls \<Longrightarrow> r \<noteq> None \<and> n < k \<and> k \<le> length ls"
proof (induction ls n e arbitrary: k r rule: next_elements.induct)
  case (1 ls n elements)
  show ?case
  proof (cases "2 \<le> length (split (rstrip (ls ! n)) '', '')")
    case True
    with "1.prems" show ?thesis by (auto simp add: next_elements.simps [of ls n elements])
  next
    case False
    show ?thesis
    proof (cases "n + 1 < length ls")
      case True
      with False "1.prems" "1.IH" [of "split (rstrip (ls ! n)) '', ''" k r]
      show ?thesis by (auto simp add: next_elements.simps [of ls n elements] Let_def)
    next
      case F2: False
      with False "1.prems" show ?thesis
        by (auto simp add: next_elements.simps [of ls n elements] Let_def
              next_elements.simps [of ls "Suc n"])
    qed
  qed
qed

lemma next_elements_break:
  "n < length ls \<Longrightarrow> 2 \<le> length (split (rstrip (ls ! n)) '', '') \<Longrightarrow>
   next_elements ls n e = (n + 1, Some (split (rstrip (ls ! n)) '', ''))"
  by (simp add: next_elements.simps [of ls n e])

lemma text_decode_cursor:
  assumes "text_decode py self elements = Inr (r, self')"
  shows "line self' = line self \<and> lines self' = lines self"
proof (cases elements)
  case Nil
  with assms show ?thesis by (simp add: text_decode_def bnd_def idx_def)
next
  case (Cons x xs)
  show ?thesis
  proof (cases "formats self (PStr x)")
    case None
    with assms Cons show ?thesis by (auto simp: text_decode_def bnd_def idx_def)
  next
    case (Some f)
    with assms Cons show ?thesis
      by (auto simp: text_decode_def bnd_def idx_def Let_def split: if_splits sum.splits)
  qed
qed

lemma text_record_not_last:
  assumes "text_parse_next py self = Inr (Some m, self')"
  shows "line self' < length (lines self')"
proof -
  obtain n r where nr: "next_elements (lines self) (line self) None = (n, r)"
    by (cases "next_elements (lines self) (line self) None")
  with assms obtain el where r: "r = Some el"
    by (cases r) (auto simp: text_parse_next_def)
  define elements where
    "elements = (if length el = 5 \<and> last el = '','' then butlast el @ [[], []] else el)"
  define self2 where
    "self2 = self\<lparr> line := n, percent := 100 * (of_nat n / of_nat (length (lines self))) \<rparr>"
  from assms nr r have ne: "lines self \<noteq> []"
    by (auto simp: text_parse_next_def Let_def split: if_splits)
  from assms nr r ne have lt: "n < length (lines self)"
    by (auto simp: text_parse_next_def Let_def split: if_splits)
  from assms nr r ne lt have "text_decode py self2 elements = Inr (Some m, self')"
    by (simp add: text_parse_next_def Let_def self2_def elements_def)
  from text_decode_cursor [OF this] lt show ?thesis by (simp add: self2_def)
qed

text \<open>
  C10. A call of the text decoder's \<^verbatim>\<open>_parse_next\<close> whose scan takes the line cursor to
  the end of the file (it has read the last line) returns \<^verbatim>\<open>None\<close> and raises nothing,
  whatever the last line holds: the test for the end of the lines comes after the cursor
  has moved past the line just read.
\<close>

theorem text_last_line_returns_None:
  assumes "line self < length (lines self)"
    and "fst (next_elements (lines self) (line self) None) = length (lines self)"
  shows "text_parse_next py self =
           Inr (None, self\<lparr> line := length (lines self), percent := 100 \<rparr>)"
proof -
  obtain k r where kr: "next_elements (lines self) (line self) None = (k, r)"
    by (cases "next_elements (lines self) (line self) None")
  with assms(2) have k: "k = length (lines self)" by simp
  from next_elements_bound [OF kr assms(1)] obtain el where r: "r = Some el" by auto
  from assms(1) have "lines self \<noteq> []" by auto
  with kr k r show ?thesis
    by (simp add: text_parse_next_def Let_def)
qed

lemma split_fmt_line:
  "split (rstrip ''FMT, 128, 89, FMT, BBnNZ, Type,Length,Name,Format,Columns'') '', '' =
     [''FMT'', ''128'', ''89'', ''FMT'', ''BBnNZ'', ''Type,Length,Name,Format,Columns'']"
  by (simp add: split_def rstrip_def rstrip_by_def is_space_def)

theorem text_last_line_returns_None_witness:
  "text_parse_next sample_builtins
     (text_reader [PStr ''FMT'' \<mapsto> FMT_fmt]
        [''FMT, 128, 89, FMT, BBnNZ, Type,Length,Name,Format,Columns''] 0 0) =
   Inr (None,
        text_reader [PStr ''FMT'' \<mapsto> FMT_fmt]
           [''FMT, 128, 89, FMT, BBnNZ, Type,Length,Name,Format,Columns''] 1 100)"
proof -
  let ?ls = "[''FMT, 128, 89, FMT, BBnNZ, Type,Length,Name,Format,Columns'']"
  let ?r = "text_reader [PStr ''FMT'' \<mapsto> FMT_fmt] ?ls 0 0"
  have a: "line ?r < length (lines ?r)" by (simp add: text_reader_sel)
  have "next_elements ?ls 0 None = (0 + 1, Some (split (rstrip (?ls ! 0)) '', ''))"
    by (rule next_elements_break) (simp_all add: split_fmt_line)
  then have b: "fst (next_elements (lines ?r) (line ?r) None) = length (lines ?r)"
    by (simp add: text_reader_sel)
  from text_last_line_returns_None [OF a b, of sample_builtins] show ?thesis
    by (simp add: text_reader_sel text_reader_upd)
qed

text \<open>
  C6, as the code has it. A line that is not the last one, has at least two tokens and
  whose first token is not a key of \<^verbatim>\<open>formats\<close> makes the call that reads it return
  \<^verbatim>\<open>None\<close>, the value that also stands for the end of the stream. The cursor has moved
  past the line and the registry is unchanged; the call does not look at the next line.
\<close>

theorem text_unknown_type_returns_None:
  assumes "line self + 1 < length (lines self)"
    and "el = split (rstrip (lines self ! line self)) '', ''"
    and "2 \<le> length el"
    and "formats self (PStr (hd el)) = None"
  shows "text_parse_next py self =
           Inr (None, self\<lparr> line := line self + 1,
                  percent := 100 * (of_nat (line self + 1) / of_nat (length (lines self))) \<rparr>)"
proof -
  from assms have ne: "next_elements (lines self) (line self) None = (line self + 1, Some el)"
    by (simp add: next_elements_break)
  from assms(3) obtain x xs where el: "el = x # xs" by (cases el) auto
  from assms(1) have "lines self \<noteq> []" by auto
  with ne assms(1,4) el show ?thesis
    by (auto simp add: text_parse_next_def text_decode_def Let_def bnd_def idx_def)
qed

lemma split_unknown_type_log:
  "split (rstrip ''XYZ, 1, 2'') '', '' = [''XYZ'', ''1'', ''2'']"
  "split (rstrip ''ATT, 1.5, -20'') '', '' = [''ATT'', ''1.5'', ''-20'']"
  by (simp_all add: split_def rstrip_def rstrip_by_def is_space_def)

theorem text_unknown_type_returns_None_witness:
  "text_parse_next sample_builtins
     (text_reader [PStr ''ATT'' \<mapsto> ATT_fmt] unknown_type_log 0 0) =
   Inr (None, text_reader [PStr ''ATT'' \<mapsto> ATT_fmt] unknown_type_log 1 (100 * (1 / 3)))"
proof -
  let ?r = "text_reader [PStr ''ATT'' \<mapsto> ATT_fmt] unknown_type_log 0 0"
  have a: "line ?r + 1 < length (lines ?r)"
    by (simp add: text_reader_sel unknown_type_log_def)
  have b: "[''XYZ'', ''1'', ''2''] = split (rstrip (lines ?r ! line ?r)) '', ''"
    by (simp add: text_reader_sel unknown_type_log_def split_unknown_type_log)
  have c: "2 \<le> length [''XYZ'', ''1'', ''2'']" by simp
  have d: "formats ?r (PStr (hd [''XYZ'', ''1'', ''2''])) = None"
    by (simp add: text_reader_sel)
  from text_unknown_type_returns_None [OF a b c d, of sample_builtins] show ?thesis
    by (simp add: text_reader_sel text_reader_upd unknown_type_log_def)
qed

lemma text_parse_next_line:
  assumes "line self + 1 < length (lines self)"
    and "el = split (rstrip (lines self ! line self)) '', ''"
    and "2 \<le> length el"
  shows "text_parse_next py self =
           text_decode py
             (self\<lparr> line := line self + 1,
                percent := 100 * (of_nat (line self + 1) / of_nat (length (lines self))) \<rparr>)
             (if length el = 5 \<and> last el = '','' then butlast el @ [[], []] else el)"
proof -
  from assms have ne: "next_elements (lines self) (line self) None = (line self + 1, Some el)"
    by (simp add: next_elements_break)
  from assms(1) have "lines self \<noteq> []" by auto
  with ne assms(1) show ?thesis
    by (simp add: text_parse_next_def Let_def)
qed

lemma text_decode_record:
  assumes "formats self (PStr x) = Some f"
    and "length (format f) \<le> length xs"
    and "rstrip_nul (name f) \<noteq> ''FMT''"
    and "DFMessage_init py f (map PStr xs) False = Inr m"
  shows "text_decode py self (x # xs) =
           Inr (Some (add_value m ''line'' (PInt (int (line self)))), self)"
  using assms by (simp add: text_decode_def bnd_def idx_def Let_def)

lemma text_decode_declaration:
  assumes "formats self (PStr x) = Some f"
    and "length (format f) \<le> length xs"
    and "rstrip_nul (name f) = ''FMT''"
    and "text_register py xs (formats self) = Inr fs"
    and "DFMessage_init py f (map PStr xs) False = Inr m"
  shows "text_decode py self (x # xs) =
           Inr (Some (add_value m ''line'' (PInt (int (line self)))), self\<lparr> formats := fs \<rparr>)"
  using assms by (simp add: text_decode_def bnd_def idx_def Let_def)

lemma dec_real_samples: "dec_real ''1.5'' = Some 1.5" "dec_real ''-20'' = Some (-20)"
  by (simp_all add: dec_real_def dec_frac_def dec_nat_def digit_val_def)

lemma field_value_ATT_text:
  "field_value sample_builtins ATT_fmt [PStr ''1.5'', PStr ''-20''] False 0 = Inr (PFloat 1.5)"
  "field_value sample_builtins ATT_fmt [PStr ''1.5'', PStr ''-20''] False (Suc 0) = Inr (PFloat (-20))"
  by (simp_all add: field_value_def ATT_fmt_def bnd_def idx_def apply_type_def py_float_def
        sample_builtins_def dec_real_samples)

lemma upt_0_2: "[0..<2] = [0, Suc 0]"
  by (simp add: upt_rec)

lemma DFMessage_init_ATT_text:
  "DFMessage_init sample_builtins ATT_fmt [PStr ''1.5'', PStr ''-20''] False =
     Inr \<lparr> d = [''Roll'' \<mapsto> PFloat 1.5, ''Pitch'' \<mapsto> PFloat (-20)], fmt = ATT_fmt,
           fieldnames = [''Roll'', ''Pitch''], timestamp = None \<rparr>"
proof -
  have c: "columns ATT_fmt = [''Roll'', ''Pitch'']" by (simp add: ATT_fmt_def)
  show ?thesis
    by (simp add: DFMessage_init_def c upt_0_2 field_value_ATT_text bnd_def)
qed

text \<open>
  C6 as stated fails: the call that reads the line \<^verbatim>\<open>XYZ, 1, 2\<close> of an unregistered type
  returns \<^verbatim>\<open>None\<close>, although the next line is a record that the next call decodes.
\<close>

theorem text_unknown_type_counterexample:
  "returned (text_parse_next sample_builtins
      (text_reader [PStr ''ATT'' \<mapsto> ATT_fmt] unknown_type_log 0 0)) = Inr None
   \<and> state_of (text_parse_next sample_builtins
      (text_reader [PStr ''ATT'' \<mapsto> ATT_fmt] unknown_type_log 0 0)) =
      Some (text_reader [PStr ''ATT'' \<mapsto> ATT_fmt] unknown_type_log 1 (100 * (1 / 3)))
   \<and> returned (text_parse_next sample_builtins
      (text_reader [PStr ''ATT'' \<mapsto> ATT_fmt] unknown_type_log 1 (100 * (1 / 3)))) =
      Inr (Some (''ATT'', [(''Roll'', Some (PFloat 1.5)), (''Pitch'', Some (PFloat (-20))),
                           (''line'', Some (PInt 2))]))"
proof -
  let ?fs = "[PStr ''ATT'' \<mapsto> ATT_fmt]"
  let ?r0 = "text_reader ?fs unknown_type_log 0 0"
  let ?r1 = "text_reader ?fs unknown_type_log 1 (100 * (1 / 3))"
  let ?r2 = "text_reader ?fs unknown_type_log 2 (100 * (2 / 3))"
  let ?m = "\<lparr> d = [''Roll'' \<mapsto> PFloat 1.5, ''Pitch'' \<mapsto> PFloat (-20)],
              fmt = ATT_fmt, fieldnames = [''Roll'', ''Pitch''], timestamp = None \<rparr>"
  have first: "text_parse_next sample_builtins ?r0 = Inr (None, ?r1)"
  proof -
    have a: "line ?r0 + 1 < length (lines ?r0)"
      by (simp add: text_reader_sel unknown_type_log_def)
    have b: "[''XYZ'', ''1'', ''2''] = split (rstrip (lines ?r0 ! line ?r0)) '', ''"
      by (simp add: text_reader_sel unknown_type_log_def split_unknown_type_log)
    have "text_parse_next sample_builtins ?r0 =
            text_decode sample_builtins ?r1 [''XYZ'', ''1'', ''2'']"
      using text_parse_next_line [OF a b, of sample_builtins]
      by (simp add: text_reader_sel text_reader_upd unknown_type_log_def)
    then show ?thesis
      by (simp add: text_decode_def bnd_def idx_def text_reader_sel)
  qed
  have second: "text_parse_next sample_builtins ?r1 =
      Inr (Some (add_value ?m ''line'' (PInt 2)), ?r2)"
  proof -
    have a: "line ?r1 + 1 < length (lines ?r1)"
      by (simp add: text_reader_sel unknown_type_log_def)
    have b: "[''ATT'', ''1.5'', ''-20''] = split (rstrip (lines ?r1 ! line ?r1)) '', ''"
      by (simp add: text_reader_sel unknown_type_log_def split_unknown_type_log)
    have "text_parse_next sample_builtins ?r1 =
            text_decode sample_builtins ?r2 [''ATT'', ''1.5'', ''-20'']"
      using text_parse_next_line [OF a b, of sample_builtins]
      by (simp add: text_reader_sel text_reader_upd unknown_type_log_def eval_nat_numeral)
    also have "\<dots> = Inr (Some (add_value ?m ''line'' (PInt (int (line ?r2)))), ?r2)"
    proof (rule text_decode_record [where f = ATT_fmt])
      show "formats ?r2 (PStr ''ATT'') = Some ATT_fmt" by (simp add: text_reader_sel)
      show "length (format ATT_fmt) \<le> length [''1.5'', ''-20'']" by (simp add: ATT_fmt_def)
      show "rstrip_nul (name ATT_fmt) \<noteq> ''FMT''"
        by (simp add: ATT_fmt_def rstrip_nul_def rstrip_by_def NUL_def)
      show "DFMessage_init sample_builtins ATT_fmt (map PStr [''1.5'', ''-20'']) False = Inr ?m"
        using DFMessage_init_ATT_text by simp
    qed
    finally show ?thesis by (simp add: text_reader_sel)
  qed
  show ?thesis
    unfolding first second
    by (simp add: returned_def state_of_def add_value_def get_type_def ATT_fmt_def)
qed

subsection \<open>The batching loop, step by step\<close>

lemma fill_step_eof_empty:
  assumes "p self = Inr (None, self1)" and "pop_loop (queue self1) = []"
  shows "fill_step p counts self = Inr (Return (0, self1\<lparr> queue := [] \<rparr>))"
  using assms by (simp add: fill_step_def bnd_def Let_def)

lemma fill_step_eof_nonempty:
  assumes "p self = Inr (None, self1)" and "pop_loop (queue self1) \<noteq> []"
  shows "fill_step p counts self = Inl TypeError"
  using assms by (simp add: fill_step_def bnd_def Let_def finish_batch_def)

lemma fill_step_other_type:
  assumes "p self = Inr (Some m, self1)" and "get_type m \<noteq> ''GPS''"
  shows "fill_step p counts self =
           Inr (Continue (bump counts (get_type m), self1\<lparr> queue := queue self1 @ [m] \<rparr>))"
  using assms by (simp add: fill_step_def bnd_def Let_def bump_def)

lemma fill_step_gps_no_time:
  assumes "p self = Inr (Some m, self1)" and "get_type m = ''GPS''"
    and "get_gps_time m = Inr t" and "\<not> truthy t"
  shows "fill_step p counts self =
           Inr (Continue (bump counts ''GPS'', self1\<lparr> queue := queue self1 @ [m] \<rparr>))"
  using assms by (simp add: fill_step_def bnd_def Let_def bump_def)

lemma fill_step_first_anchor:
  assumes "p self = Inr (Some m, self1)" and "get_type m = ''GPS''"
    and "get_gps_time m = Inr (Some t)" and "t \<noteq> 0" and "last_gps_time self1 = None"
  shows "fill_step p counts self =
           Inr (Continue (bump counts ''GPS'',
                  self1\<lparr> queue := queue self1 @ [m], last_gps_time := Some t \<rparr>))"
  using assms by (simp add: fill_step_def bnd_def Let_def bump_def truthy_def)

lemma fill_step_closing_anchor:
  assumes "p self = Inr (Some m, self1)" and "get_type m = ''GPS''"
    and "get_gps_time m = Inr (Some t)" and "t \<noteq> 0" and "last_gps_time self1 = Some l"
  shows "fill_step p counts self =
           bnd (finish_batch (Some t) (Some ''GPS'') (bump counts ''GPS'')
                  (self1\<lparr> queue := queue self1 @ [m] \<rparr>))
             (\<lambda>self3. Inr (Return (int (length (queue self3)), self3)))"
  using assms by (simp add: fill_step_def bnd_def Let_def bump_def truthy_def)


lemma fill_loop_continue:
  "fill_step p counts self = Inr (Continue (counts', self')) \<Longrightarrow>
   fill_loop p counts self = fill_loop p counts' self'"
  by (subst fill_loop.simps) simp

lemma fill_loop_return:
  "fill_step p counts self = Inr (Return r) \<Longrightarrow> fill_loop p counts self = Some (Inr r)"
  by (subst fill_loop.simps) simp

lemma fill_loop_error:
  "fill_step p counts self = Inl e \<Longrightarrow> fill_loop p counts self = Some (Inl e)"
  by (subst fill_loop.simps) simp

lemma stream_parse_next_Cons:
  "pending self = m # ms \<Longrightarrow> stream_parse_next self = Inr (Some m, self\<lparr> pending := ms \<rparr>)"
  by (simp add: stream_parse_next_def)

lemma stream_parse_next_Nil:
  "pending self = [] \<Longrightarrow> stream_parse_next self = Inr (None, self)"
  by (simp add: stream_parse_next_def)

lemma stream_accumulate:
  assumes "pending self = xs @ rest" and "\<forall>x \<in> set xs. get_type x \<noteq> ''GPS''"
  shows "fill_loop stream_parse_next counts self =
           fill_loop stream_parse_next (foldl bump counts (map get_type xs))
             (self\<lparr> queue := queue self @ xs, pending := rest \<rparr>)"
  using assms
proof (induction xs arbitrary: counts self)
  case Nil
  then have "self\<lparr> queue := queue self @ [], pending := rest \<rparr> = self" by simp
  then show ?case by simp
next
  case (Cons x xs)
  let ?s1 = "self\<lparr> pending := xs @ rest \<rparr>"
  let ?s2 = "?s1\<lparr> queue := queue ?s1 @ [x] \<rparr>"
  from Cons.prems have p: "stream_parse_next self = Inr (Some x, ?s1)"
    by (simp add: stream_parse_next_Cons)
  from Cons.prems have "get_type x \<noteq> ''GPS''" by simp
  from fill_step_other_type [where p = stream_parse_next and self = self, OF p this]
  have "fill_loop stream_parse_next counts self =
          fill_loop stream_parse_next (bump counts (get_type x)) ?s2"
    by (rule fill_loop_continue)
  also have "\<dots> = fill_loop stream_parse_next
        (foldl bump (bump counts (get_type x)) (map get_type xs))
        (?s2\<lparr> queue := queue ?s2 @ xs, pending := rest \<rparr>)"
    using Cons.prems by (intro Cons.IH) simp_all
  finally show ?case by simp
qed

lemma foldl_bump_same:
  assumes "\<forall>x \<in> set xs. get_type x = ty"
  shows "foldl bump counts (map get_type xs) =
           (if xs = [] then counts
            else counts(ty \<mapsto> (case counts ty of None \<Rightarrow> 0 | Some c \<Rightarrow> c) + int (length xs)))"
  using assms
proof (induction xs arbitrary: counts)
  case Nil
  then show ?case by simp
next
  case (Cons x xs)
  then show ?case by (cases "xs = []") (auto simp: bump_def)
qed

lemma assign_times_append:
  "assign_times g dl cn (as @ bs) cp =
     bnd (assign_times g dl cn as cp) (\<lambda>(as', cp').
     bnd (assign_times g dl cn bs cp') (\<lambda>(bs', cp'').
     Inr (as' @ bs', cp'')))"
proof (induction as arbitrary: cp)
  case Nil
  then show ?case by (simp add: bnd_def split: sum.splits)
next
  case (Cons a as)
  show ?case
  proof (cases "assign_one g dl cn a cp")
    case (Inl e)
    then show ?thesis by (simp add: bnd_def)
  next
    case (Inr r)
    obtain a' cp' where r: "r = (a', cp')" by (cases r)
    show ?thesis
      using Inr r Cons.IH [of cp']
      by (simp add: bnd_def split: sum.splits prod.splits)
  qed
qed

lemma assign_one_anchor:
  assumes "get_type m = ''GPS'' \<or> get_type m = ''GPS2''"
    and "get_gps_time m = Inr (Some t)" and "t \<noteq> 0"
  shows "assign_one g dl cn m cp = Inr (stamp m t, cp)"
  using assms by (cases cp) (auto simp: assign_one_def bnd_def Let_def truthy_def stamp_def)

lemma assign_one_interpolated:
  assumes "get_type m = ty" and "ty \<noteq> ''GPS''" and "ty \<noteq> ''GPS2''"
    and "''T'' \<notin> set (fieldnames m)"
    and "cn ty = Some c" and "c \<noteq> 0" and "countdown ty = Some cd"
  shows "assign_one g dl cn m (countdown, periods) =
           Inr (stamp m (g - dl / of_int c * of_int cd + dl / of_int c * 0.5),
                countdown(ty \<mapsto> cd - 1), periods(ty \<mapsto> dl / of_int c))"
  using assms by (simp add: assign_one_def bnd_def Let_def stamp_def)

lemma assign_times_same_type:
  assumes "\<forall>x \<in> set xs. get_type x = ty \<and> ''T'' \<notin> set (fieldnames x)"
    and "ty \<noteq> ''GPS''" and "ty \<noteq> ''GPS2''"
    and "cn ty = Some c" and "c \<noteq> 0" and "countdown ty = Some cd"
  shows "assign_times g dl cn xs (countdown, periods) =
           Inr (spread g (dl / of_int c) cd xs,
                (if xs = [] then countdown else countdown(ty \<mapsto> cd - int (length xs))),
                (if xs = [] then periods else periods(ty \<mapsto> dl / of_int c)))"
  using assms
proof (induction xs arbitrary: countdown periods cd)
  case Nil
  then show ?case by simp
next
  case (Cons x xs)
  from Cons.prems have x: "get_type x = ty" "''T'' \<notin> set (fieldnames x)" by simp_all
  have one: "assign_one g dl cn x (countdown, periods) =
      Inr (stamp x (g - dl / of_int c * of_int cd + dl / of_int c * 0.5),
           countdown(ty \<mapsto> cd - 1), periods(ty \<mapsto> dl / of_int c))"
    using x Cons.prems by (intro assign_one_interpolated) simp_all
  have rest: "assign_times g dl cn xs (countdown(ty \<mapsto> cd - 1), periods(ty \<mapsto> dl / of_int c)) =
      Inr (spread g (dl / of_int c) (cd - 1) xs,
           (if xs = [] then countdown(ty \<mapsto> cd - 1)
            else (countdown(ty \<mapsto> cd - 1))(ty \<mapsto> cd - 1 - int (length xs))),
           (if xs = [] then periods(ty \<mapsto> dl / of_int c)
            else (periods(ty \<mapsto> dl / of_int c))(ty \<mapsto> dl / of_int c)))"
    using Cons.prems by (intro Cons.IH) simp_all
  have "assign_times g dl cn (x # xs) (countdown, periods) =
      bnd (assign_times g dl cn xs (countdown(ty \<mapsto> cd - 1), periods(ty \<mapsto> dl / of_int c)))
        (\<lambda>(rest', cp''). Inr (stamp x (g - dl / of_int c * of_int cd + dl / of_int c * 0.5) # rest', cp''))"
    by (simp add: one bnd_def)
  also have "\<dots> = Inr (stamp x (g - dl / of_int c * of_int cd + dl / of_int c * 0.5) #
            spread g (dl / of_int c) (cd - 1) xs,
           (if xs = [] then countdown(ty \<mapsto> cd - 1)
            else (countdown(ty \<mapsto> cd - 1))(ty \<mapsto> cd - 1 - int (length xs))),
           (if xs = [] then periods(ty \<mapsto> dl / of_int c)
            else (periods(ty \<mapsto> dl / of_int c))(ty \<mapsto> dl / of_int c)))"
    by (simp only: rest) (simp add: bnd_def)
  also have "\<dots> = Inr (spread g (dl / of_int c) cd (x # xs),
                (if x # xs = [] then countdown else countdown(ty \<mapsto> cd - int (length (x # xs)))),
                (if x # xs = [] then periods else periods(ty \<mapsto> dl / of_int c)))"
  proof (cases "xs = []")
    case True
    then show ?thesis by simp
  next
    case False
    have e: "cd - 1 - int (length xs) = cd - int (length (x # xs))" by simp
    from False show ?thesis unfolding e by simp
  qed
  finally show ?case .
qed

lemma spread_nth:
  "j < length xs \<Longrightarrow>
   spread g p cd xs ! j = stamp (xs ! j) (g - p * (of_int cd - of_nat j) + p * 0.5)"
proof (induction xs arbitrary: cd j)
  case Nil
  then show ?case by simp
next
  case (Cons x xs)
  then show ?case by (cases j) (simp_all add: algebra_simps)
qed

lemma length_spread: "length (spread g p cd xs) = length xs"
  by (induction xs arbitrary: cd) simp_all


lemma sort_queue_stamped:
  assumes "\<forall>m \<in> set q. timestamp m \<noteq> None"
  shows "sort_queue q = Inr (rev (sort_key msg_key (rev q)))"
  using assms by (auto simp: sort_queue_def)

lemma timestamp_spread: "m \<in> set (spread g p cd xs) \<Longrightarrow> timestamp m \<noteq> None"
  by (induction xs arbitrary: cd) (auto simp: stamp_def)

lemma batch_of_one_type:
  assumes g1: "get_type G1 = ''GPS''" "get_gps_time G1 = Inr (Some T1)" "T1 \<noteq> 0"
    and xs: "xs \<noteq> []" "\<forall>x \<in> set xs. get_type x = ty \<and> ''T'' \<notin> set (fieldnames x)"
      "ty \<noteq> ''GPS''" "ty \<noteq> ''GPS2''"
    and pre: "\<forall>m \<in> set pre. get_type m = ''GPS''" "assign_times T1 dl cn pre (cn, per) = Inr (pre', cn, per)"
      "\<forall>m \<in> set pre'. timestamp m \<noteq> None"
    and st: "queue self = pre" "pending self = xs @ G1 # rest" "last_gps_time self = Some T0"
      "msg_periods self = per"
    and cn: "cn = (foldl bump counts (map get_type xs))(''GPS'' \<mapsto> c)" "counts ty = None"
      "bump (foldl bump counts (map get_type xs)) ''GPS'' = cn"
    and dl: "dl = (T1 - T0) * of_int c"
    and p: "p = dl / real (length xs)"
  shows "fill_loop stream_parse_next counts self =
           Some (Inr (int (length (pre' @ xs @ [G1])),
             self\<lparr> pending := rest, last_gps_time := Some T1,
                    msg_periods := per(ty \<mapsto> p),
                    queue := rev (sort_key msg_key
                               (rev (pre' @ spread T1 p (int (length xs)) xs @ [stamp G1 T1]))) \<rparr>))"
proof -
  let ?sb = "self\<lparr> queue := queue self @ xs, pending := G1 # rest \<rparr>"
  let ?cb = "foldl bump counts (map get_type xs)"
  let ?sc = "?sb\<lparr> pending := rest \<rparr>"
  let ?q = "pre' @ spread T1 p (int (length xs)) xs @ [stamp G1 T1]"
  from xs have ng: "\<forall>x \<in> set xs. get_type x \<noteq> ''GPS''" by auto
  have acc: "fill_loop stream_parse_next counts self = fill_loop stream_parse_next ?cb ?sb"
    using st(2) ng by (rule stream_accumulate)
  have pn: "stream_parse_next ?sb = Inr (Some G1, ?sc)"
    by (rule stream_parse_next_Cons) simp
  have cb: "?cb = counts(ty \<mapsto> int (length xs))"
    using foldl_bump_same [of xs ty counts] xs cn(2) by simp
  have cnty: "cn ty = Some (int (length xs))" "cn ''GPS'' = Some c"
    using cb cn(1) xs(3) by simp_all
  have k0: "int (length xs) \<noteq> 0" using xs(1) by simp
  have mid: "assign_times T1 dl cn xs (cn, per) =
      Inr (spread T1 p (int (length xs)) xs, cn(ty \<mapsto> 0), per(ty \<mapsto> p))"
    using assign_times_same_type [where cn = cn and countdown = cn and xs = xs and ty = ty
        and c = "int (length xs)" and cd = "int (length xs)" and g = T1 and dl = dl and periods = per,
        OF xs(2) xs(3) xs(4) cnty(1) k0 cnty(1)] xs(1) p
    by simp
  have last: "assign_one T1 dl cn G1 cp = Inr (stamp G1 T1, cp)" for cp
    using assign_one_anchor [of G1 T1 T1 dl cn cp] g1 by simp
  have all: "assign_times T1 dl cn (pre @ xs @ [G1]) (cn, per) =
      Inr (?q, cn(ty \<mapsto> 0), per(ty \<mapsto> p))"
    by (simp add: assign_times_append pre(2) mid last bnd_def)
  have ts: "\<forall>m \<in> set ?q. timestamp m \<noteq> None"
    using pre(3) timestamp_spread by (auto simp: stamp_def)
  have fin: "finish_batch (Some T1) (Some ''GPS'') cn (?sc\<lparr> queue := queue ?sc @ [G1] \<rparr>) =
      Inr (?sc\<lparr> last_gps_time := Some T1, msg_periods := per(ty \<mapsto> p),
                 queue := rev (sort_key msg_key (rev ?q)) \<rparr>)"
    using st cnty(2) dl all sort_queue_stamped [OF ts]
    by (simp add: finish_batch_def bnd_def)
  have "fill_step stream_parse_next ?cb ?sb =
      bnd (finish_batch (Some T1) (Some ''GPS'') (bump ?cb ''GPS'') (?sc\<lparr> queue := queue ?sc @ [G1] \<rparr>))
        (\<lambda>self3. Inr (Return (int (length (queue self3)), self3)))"
    using pn g1 st(3)
    by (intro fill_step_closing_anchor [where p = stream_parse_next and t = T1 and l = T0]) simp_all
  then have "fill_step stream_parse_next ?cb ?sb =
      bnd (Inr (?sc\<lparr> last_gps_time := Some T1, msg_periods := per(ty \<mapsto> p),
                 queue := rev (sort_key msg_key (rev ?q)) \<rparr>))
        (\<lambda>self3. Inr (Return (int (length (queue self3)), self3)))"
    by (simp only: cn(3) fin)
  then have "fill_step stream_parse_next ?cb ?sb =
      Inr (Return (int (length (rev (sort_key msg_key (rev ?q)))),
        ?sc\<lparr> last_gps_time := Some T1, msg_periods := per(ty \<mapsto> p),
              queue := rev (sort_key msg_key (rev ?q)) \<rparr>))"
    by (simp add: bnd_def)
  from fill_loop_return [OF this] acc show ?thesis
    by (simp add: length_spread)
qed


lemma between_anchors_fill:
  assumes g0: "get_type G0 = ''GPS''" "get_gps_time G0 = Inr (Some T0)" "T0 \<noteq> 0"
    and g1: "get_type G1 = ''GPS''" "get_gps_time G1 = Inr (Some T1)" "T1 \<noteq> 0"
    and xs: "xs \<noteq> []" "\<forall>x \<in> set xs. get_type x = ty \<and> ''T'' \<notin> set (fieldnames x)"
      "ty \<noteq> ''GPS''" "ty \<noteq> ''GPS2''"
    and st: "queue self = []"
      "pending self = (if first_batch then [G0] else []) @ xs @ G1 # rest"
      "last_gps_time self = (if first_batch then None else Some T0)"
    and c: "c = (if first_batch then 2 else 1)"
    and p: "p = c * (T1 - T0) / real (length xs)"
  shows "fill_msg_queue stream_parse_next self =
           Some (Inr (Some (int (length ((if first_batch then [G0] else []) @ xs @ [G1]))),
             self\<lparr> pending := rest, last_gps_time := Some T1,
                    msg_periods := (msg_periods self)(ty \<mapsto> p),
                    queue := rev (sort_key msg_key
                      (rev ((if first_batch then [stamp G0 T0] else []) @
                            spread T1 p (int (length xs)) xs @ [stamp G1 T1]))) \<rparr>))"
proof (cases first_batch)
  case False
  have "fill_loop stream_parse_next Map.empty self =
           Some (Inr (int (length ([] @ xs @ [G1])),
             self\<lparr> pending := rest, last_gps_time := Some T1,
                    msg_periods := (msg_periods self)(ty \<mapsto> p),
                    queue := rev (sort_key msg_key
                               (rev ([] @ spread T1 p (int (length xs)) xs @ [stamp G1 T1]))) \<rparr>))"
  proof (rule batch_of_one_type [where pre = "[]" and c = 1 and ?T0.0 = T0
        and dl = "(T1 - T0) * of_int 1"
        and cn = "(foldl bump Map.empty (map get_type xs))(''GPS'' \<mapsto> 1)", OF g1 xs])
    show "bump (foldl bump Map.empty (map get_type xs)) ''GPS'' =
        (foldl bump Map.empty (map get_type xs))(''GPS'' \<mapsto> 1)"
      using foldl_bump_same [of xs ty Map.empty] xs by (simp add: bump_def)
    show "p = (T1 - T0) * of_int 1 / real (length xs)" using p c False by simp
  qed (use st False in simp_all)
  with st(1) False show ?thesis by (simp add: fill_msg_queue_def)
next
  case True
  let ?s1 = "self\<lparr> pending := xs @ G1 # rest \<rparr>"
  let ?sa = "?s1\<lparr> queue := queue ?s1 @ [G0], last_gps_time := Some T0 \<rparr>"
  let ?cn = "(foldl bump (bump Map.empty ''GPS'') (map get_type xs))(''GPS'' \<mapsto> 2)"
  have pn: "stream_parse_next self = Inr (Some G0, ?s1)"
    using st True by (simp add: stream_parse_next_Cons)
  have "fill_step stream_parse_next Map.empty self =
      Inr (Continue (bump Map.empty ''GPS'', ?sa))"
    using pn g0 st(3) True
    by (intro fill_step_first_anchor [where p = stream_parse_next]) simp_all
  then have first: "fill_loop stream_parse_next Map.empty self =
      fill_loop stream_parse_next (bump Map.empty ''GPS'') ?sa"
    by (rule fill_loop_continue)
  have "fill_loop stream_parse_next (bump Map.empty ''GPS'') ?sa =
           Some (Inr (int (length ([stamp G0 T0] @ xs @ [G1])),
             ?sa\<lparr> pending := rest, last_gps_time := Some T1,
                    msg_periods := (msg_periods self)(ty \<mapsto> p),
                    queue := rev (sort_key msg_key
                      (rev ([stamp G0 T0] @ spread T1 p (int (length xs)) xs @ [stamp G1 T1]))) \<rparr>))"
  proof (rule batch_of_one_type [where pre = "[G0]" and c = 2 and ?T0.0 = T0
        and dl = "(T1 - T0) * of_int 2" and cn = ?cn, OF g1 xs])
    show "bump (foldl bump (bump Map.empty ''GPS'') (map get_type xs)) ''GPS'' = ?cn"
      using foldl_bump_same [of xs ty "bump Map.empty ''GPS''"] xs by (simp add: bump_def)
    show "p = (T1 - T0) * of_int 2 / real (length xs)" using p c True by simp
    show "assign_times T1 ((T1 - T0) * of_int 2) ?cn [G0] (?cn, msg_periods self) =
        Inr ([stamp G0 T0], ?cn, msg_periods self)"
      using assign_one_anchor [of G0 T0 T1 "(T1 - T0) * of_int 2" ?cn "(?cn, msg_periods self)"] g0
      by (simp add: bnd_def)
    show "bump Map.empty ''GPS'' ty = None" using xs by (simp add: bump_def)
  qed (use st g0 in \<open>simp_all add: stamp_def\<close>)
  with first st(1) True show ?thesis by (simp add: fill_msg_queue_def)
qed


lemma slot_time_spread:
  assumes "j < length xs" and "p = c * (T1 - T0) / real (length xs)"
  shows "spread T1 p (int (length xs)) xs ! j = stamp (xs ! j) (slot_time c T0 T1 (length xs) j)"
proof -
  from assms(1) have k: "real (length xs) \<noteq> 0" by auto
  have "T1 - p * (real_of_int (int (length xs)) - real j) + p * 0.5 =
        slot_time c T0 T1 (length xs) j"
    using k by (simp add: assms(2) slot_time_def field_simps)
  with spread_nth [OF assms(1), of T1 p "int (length xs)"] show ?thesis by simp
qed

lemma slot_time_step:
  "k \<noteq> 0 \<Longrightarrow> slot_time c T0 T1 k (Suc j) - slot_time c T0 T1 k j = c * (T1 - T0) / real k"
  by (simp add: slot_time_def field_simps)

text \<open>
  C1, as the code has it. Two GPS anchors at \<open>T0\<close> and \<open>T1\<close> bracket \<open>k\<close> records
  \<open>xs\<close> of one other type that have no field \<^verbatim>\<open>T\<close>. Either the batch is the first after
  a rewind and holds both anchors (\<open>c = 2\<close> GPS records), or the first anchor closed the
  batch before and only its time is left in \<^verbatim>\<open>last_gps_time\<close> (\<open>c = 1\<close>). The call
  returns, and record number \<open>j\<close> gets the timestamp
  \<open>T1 - c * (T1 - T0) + (2 * j + 1) * c * (T1 - T0) / (2 * k)\<close>: the records are spaced by
  \<open>c * (T1 - T0) / k\<close>, in increasing order when \<open>T0 < T1\<close>, and the first one is at
  \<open>T1 - c * (T1 - T0) + c * (T1 - T0) / (2 * k)\<close>, which for \<open>c = 1\<close> is
  \<open>T0 + (T1 - T0) / (2 * k)\<close>.
\<close>

theorem interpolation_between_anchors:
  assumes g0: "get_type G0 = ''GPS''" "get_gps_time G0 = Inr (Some T0)" "T0 \<noteq> 0"
    and g1: "get_type G1 = ''GPS''" "get_gps_time G1 = Inr (Some T1)" "T1 \<noteq> 0"
    and xs: "xs \<noteq> []" "\<forall>x \<in> set xs. get_type x = ty \<and> ''T'' \<notin> set (fieldnames x)"
      "ty \<noteq> ''GPS''" "ty \<noteq> ''GPS2''"
    and st: "queue self = []"
      "pending self = (if first_batch then [G0] else []) @ xs @ G1 # rest"
      "last_gps_time self = (if first_batch then None else Some T0)"
    and c: "c = (if first_batch then 2 else 1)"
    and p: "p = c * (T1 - T0) / real (length xs)"
  shows "fill_msg_queue stream_parse_next self =
           Some (Inr (Some (int (length ((if first_batch then [G0] else []) @ xs @ [G1]))),
             self\<lparr> pending := rest, last_gps_time := Some T1,
                    msg_periods := (msg_periods self)(ty \<mapsto> p),
                    queue := rev (sort_key msg_key
                      (rev ((if first_batch then [stamp G0 T0] else []) @
                            spread T1 p (int (length xs)) xs @ [stamp G1 T1]))) \<rparr>))
         \<and> (\<forall>j < length xs.
               spread T1 p (int (length xs)) xs ! j =
                 stamp (xs ! j) (slot_time c T0 T1 (length xs) j))
         \<and> (\<forall>j. slot_time c T0 T1 (length xs) (Suc j) - slot_time c T0 T1 (length xs) j =
                 c * (T1 - T0) / real (length xs))
         \<and> slot_time c T0 T1 (length xs) 0 =
               T1 - c * (T1 - T0) + c * (T1 - T0) / (2 * real (length xs))
         \<and> (\<not> first_batch \<longrightarrow>
               slot_time c T0 T1 (length xs) 0 = T0 + (T1 - T0) / (2 * real (length xs)))
         \<and> (T0 < T1 \<longrightarrow>
               (\<forall>j. slot_time c T0 T1 (length xs) j < slot_time c T0 T1 (length xs) (Suc j)))"
proof (intro conjI allI impI)
  show "fill_msg_queue stream_parse_next self =
           Some (Inr (Some (int (length ((if first_batch then [G0] else []) @ xs @ [G1]))),
             self\<lparr> pending := rest, last_gps_time := Some T1,
                    msg_periods := (msg_periods self)(ty \<mapsto> p),
                    queue := rev (sort_key msg_key
                      (rev ((if first_batch then [stamp G0 T0] else []) @
                            spread T1 p (int (length xs)) xs @ [stamp G1 T1]))) \<rparr>))"
    using assms by (rule between_anchors_fill)
next
  fix j assume "j < length xs"
  then show "spread T1 p (int (length xs)) xs ! j =
      stamp (xs ! j) (slot_time c T0 T1 (length xs) j)"
    using p by (rule slot_time_spread)
next
  fix j
  from xs(1) show "slot_time c T0 T1 (length xs) (Suc j) - slot_time c T0 T1 (length xs) j =
      c * (T1 - T0) / real (length xs)"
    by (intro slot_time_step) simp
next
  show "slot_time c T0 T1 (length xs) 0 =
      T1 - c * (T1 - T0) + c * (T1 - T0) / (2 * real (length xs))"
    by (simp add: slot_time_def)
next
  assume "\<not> first_batch"
  with c show "slot_time c T0 T1 (length xs) 0 = T0 + (T1 - T0) / (2 * real (length xs))"
    by (simp add: slot_time_def)
next
  fix j assume lt: "T0 < T1"
  from xs(1) have k: "0 < real (length xs)" by simp
  from c have "0 < c" by simp
  with lt k have "0 < c * (T1 - T0) / real (length xs)" by simp
  moreover from xs(1)
  have "slot_time c T0 T1 (length xs) (Suc j) - slot_time c T0 T1 (length xs) j =
      c * (T1 - T0) / real (length xs)"
    by (intro slot_time_step) simp
  ultimately show "slot_time c T0 T1 (length xs) j < slot_time c T0 T1 (length xs) (Suc j)"
    by linarith
qed

lemma stream_reader_sel:
  "pending (stream_reader ms q l per) = ms"
  "queue (stream_reader ms q l per) = q"
  "last_gps_time (stream_reader ms q l per) = l"
  "msg_periods (stream_reader ms q l per) = per"
  by (simp_all add: stream_reader_def DFReader.extend_def DFReader_stream.fields_def empty_reader_def)

lemma stream_reader_upd:
  "(stream_reader ms q l per)\<lparr> pending := ms' \<rparr> = stream_reader ms' q l per"
  "(stream_reader ms q l per)\<lparr> queue := q' \<rparr> = stream_reader ms q' l per"
  "(stream_reader ms q l per)\<lparr> last_gps_time := l' \<rparr> = stream_reader ms q l' per"
  "(stream_reader ms q l per)\<lparr> msg_periods := per' \<rparr> = stream_reader ms q l per'"
  by (simp_all add: stream_reader_def DFReader.extend_def DFReader_stream.fields_def empty_reader_def)

lemma sample_gps_facts:
  "get_type (sample_gps ms) = ''GPS''"
  "get_gps_time (sample_gps ms) = Inr (Some (of_int ms * 0.001))"
  "get_type (sample_gps2 ms) = ''GPS2''"
  "get_gps_time (sample_gps2 ms) = Inr (Some (of_int ms * 0.001))"
  by (simp_all add: sample_gps_def sample_gps2_def sample_msg_def get_type_def get_gps_time_def
        attr_def bnd_def mul_float_def)

lemma sample_att_facts:
  "get_type (sample_att r) = ''ATT''"
  "''T'' \<notin> set (fieldnames (sample_att r))"
  by (simp_all add: sample_att_def sample_msg_def get_type_def)

lemma msg_key_stamp: "msg_key (stamp m t) = (0, t, [])"
  by (simp add: msg_key_def stamp_def ts_key_def)

lemma sample_batch_fill:
  "fill_msg_queue stream_parse_next
     (stream_reader [sample_gps 1000, sample_att 1, sample_att 2, sample_gps 3000] [] None Map.empty) =
   Some (Inr (Some 4,
     stream_reader []
       [stamp (sample_gps 3000) 3, stamp (sample_att 2) 2, stamp (sample_gps 1000) 1,
        stamp (sample_att 1) 0]
       (Some 3) [''ATT'' \<mapsto> 2]))"
proof -
  let ?r = "stream_reader [sample_gps 1000, sample_att 1, sample_att 2, sample_gps 3000] [] None
              Map.empty"
  have "fill_msg_queue stream_parse_next ?r =
           Some (Inr (Some (int (length ((if True then [sample_gps 1000] else []) @
                      [sample_att 1, sample_att 2] @ [sample_gps 3000]))),
             ?r\<lparr> pending := [], last_gps_time := Some 3,
                    msg_periods := (msg_periods ?r)(''ATT'' \<mapsto> 2),
                    queue := rev (sort_key msg_key
                      (rev ((if True then [stamp (sample_gps 1000) 1] else []) @
                            spread 3 2 (int (length [sample_att 1, sample_att 2]))
                              [sample_att 1, sample_att 2] @ [stamp (sample_gps 3000) 3]))) \<rparr>))"
    by (rule between_anchors_fill [where c = 2 and ?T0.0 = 1])
       (simp_all add: sample_gps_facts sample_att_facts stream_reader_sel)
  then show ?thesis
    by (simp add: stream_reader_sel stream_reader_upd msg_key_stamp)
qed


theorem interpolation_between_anchors_witness:
  "fill_msg_queue stream_parse_next
     (stream_reader [sample_gps 1000, sample_att 1, sample_att 2, sample_gps 3000] [] None Map.empty) =
   Some (Inr (Some 4,
     stream_reader []
       [stamp (sample_gps 3000) 3, stamp (sample_att 2) 2, stamp (sample_gps 1000) 1,
        stamp (sample_att 1) 0]
       (Some 3) [''ATT'' \<mapsto> 2]))
   \<and> slot_time 2 1 3 2 0 = 0 \<and> slot_time 2 1 3 2 1 = 2
   \<and> slot_time 2 1 3 2 0 < slot_time 2 1 3 2 1"
proof -
  let ?r = "stream_reader [sample_gps 1000, sample_att 1, sample_att 2, sample_gps 3000] [] None
              Map.empty"
  let ?xs = "[sample_att 1, sample_att 2]"
  have h: "get_type (sample_gps 1000) = ''GPS''" "get_gps_time (sample_gps 1000) = Inr (Some 1)"
    "(1::real) \<noteq> 0"
    "get_type (sample_gps 3000) = ''GPS''" "get_gps_time (sample_gps 3000) = Inr (Some 3)"
    "(3::real) \<noteq> 0"
    "?xs \<noteq> []" "\<forall>x \<in> set ?xs. get_type x = ''ATT'' \<and> ''T'' \<notin> set (fieldnames x)"
    "''ATT'' \<noteq> ''GPS''" "''ATT'' \<noteq> ''GPS2''"
    "queue ?r = []"
    "pending ?r = (if True then [sample_gps 1000] else []) @ ?xs @ sample_gps 3000 # []"
    "last_gps_time ?r = (if True then None else Some 1)"
    "(2::real) = (if True then 2 else 1)"
    "(2::real) = 2 * (3 - 1) / real (length ?xs)"
    by (simp_all add: sample_gps_facts sample_att_facts stream_reader_sel)
  have lt: "(1::real) < 3" by simp
  note t = interpolation_between_anchors [OF h]
  from t have "fill_msg_queue stream_parse_next ?r =
           Some (Inr (Some (int (length ((if True then [sample_gps 1000] else []) @ ?xs @
                                         [sample_gps 3000]))),
             ?r\<lparr> pending := [], last_gps_time := Some 3,
                    msg_periods := (msg_periods ?r)(''ATT'' \<mapsto> 2),
                    queue := rev (sort_key msg_key
                      (rev ((if True then [stamp (sample_gps 1000) 1] else []) @
                            spread 3 2 (int (length ?xs)) ?xs @ [stamp (sample_gps 3000) 3]))) \<rparr>))"
    by (rule conjunct1)
  then have a: "fill_msg_queue stream_parse_next ?r =
     Some (Inr (Some 4,
       stream_reader []
         [stamp (sample_gps 3000) 3, stamp (sample_att 2) 2, stamp (sample_gps 1000) 1,
          stamp (sample_att 1) 0]
         (Some 3) [''ATT'' \<mapsto> 2]))"
    by (simp add: stream_reader_sel stream_reader_upd msg_key_stamp)
  from t lt have "slot_time 2 1 3 (length ?xs) 0 < slot_time 2 1 3 (length ?xs) (Suc 0)"
    by blast
  then have b: "slot_time 2 1 3 2 0 < slot_time 2 1 3 2 1" by (simp add: eval_nat_numeral)
  have c: "slot_time 2 1 3 2 0 = 0" "slot_time 2 1 3 2 1 = 2"
    by (simp_all add: slot_time_def)
  from a b c show ?thesis by simp
qed

text \<open>
  C1 as stated fails on the log GPS (1 s), ATT, ATT, GPS (3 s): the claim puts the first
  ATT record at \<open>1 + (3 - 1) / (2 * 2) = 1.5\<close> and the records \<open>(3 - 1) / 2 = 1\<close>
  apart; the code puts them at 0 and 2.
\<close>

theorem interpolation_between_anchors_counterexample:
  "get_gps_time (sample_gps 1000) = Inr (Some 1)
   \<and> get_gps_time (sample_gps 3000) = Inr (Some 3)
   \<and> fill_msg_queue stream_parse_next
        (stream_reader [sample_gps 1000, sample_att 1, sample_att 2, sample_gps 3000] []
           (last_gps_time (DFReader_rewind empty_reader)) Map.empty) =
      Some (Inr (Some 4,
        stream_reader []
          [stamp (sample_gps 3000) 3, stamp (sample_att 2) 2, stamp (sample_gps 1000) 1,
           stamp (sample_att 1) 0]
          (Some 3) [''ATT'' \<mapsto> 2]))
   \<and> (0::real) \<noteq> 1 + (3 - 1) / (2 * 2)
   \<and> (2::real) - 0 \<noteq> (3 - 1) / 2"
  using sample_batch_fill
  by (simp add: sample_gps_facts DFReader_rewind_def)

subsection \<open>The end of the stream\<close>

lemma fill_loop_eof:
  assumes "pending self = []"
  shows "fill_loop stream_parse_next counts self =
           Some (if pop_loop (queue self) = [] then Inr (0, self\<lparr> queue := [] \<rparr>)
                 else Inl TypeError)"
proof (cases "pop_loop (queue self) = []")
  case True
  with fill_step_eof_empty [where p = stream_parse_next, OF stream_parse_next_Nil [OF assms]]
  show ?thesis by (simp add: fill_loop_return)
next
  case False
  with fill_step_eof_nonempty [where p = stream_parse_next, OF stream_parse_next_Nil [OF assms]]
  show ?thesis by (simp add: fill_loop_error)
qed

text \<open>
  C2. The log ATT, GPS (1 s), ATT ends before a second anchor. At the end of the stream the
  loop pops the last ATT record and the GPS record; one record is left, and the call
  raises \<^verbatim>\<open>TypeError\<close> where it subtracts from \<^verbatim>\<open>gps_time\<close>, which is \<^verbatim>\<open>None\<close>.
\<close>

theorem end_of_stream_raises:
  "fill_msg_queue stream_parse_next
     (stream_reader [sample_att 1, sample_gps 1000, sample_att 2] [] None Map.empty) =
   Some (Inl TypeError)"
proof -
  let ?r0 = "stream_reader [sample_att 1, sample_gps 1000, sample_att 2] [] None Map.empty"
  let ?r1 = "stream_reader [sample_gps 1000, sample_att 2] [sample_att 1] None Map.empty"
  let ?r2 = "stream_reader [sample_att 2] [sample_att 1, sample_gps 1000] (Some 1) Map.empty"
  let ?r3 = "stream_reader [] [sample_att 1, sample_gps 1000, sample_att 2] (Some 1) Map.empty"
  let ?c1 = "bump Map.empty ''ATT''"
  let ?c2 = "bump ?c1 ''GPS''"
  let ?c3 = "bump ?c2 ''ATT''"
  have "fill_step stream_parse_next Map.empty ?r0 = Inr (Continue (?c1, ?r1))"
    using fill_step_other_type [where p = stream_parse_next and self = ?r0
        and m = "sample_att 1" and ?self1.0 = "stream_reader [sample_gps 1000, sample_att 2] [] None Map.empty"]
    by (simp add: stream_parse_next_def stream_reader_sel stream_reader_upd sample_att_facts)
  then have s1: "fill_loop stream_parse_next Map.empty ?r0 = fill_loop stream_parse_next ?c1 ?r1"
    by (rule fill_loop_continue)
  have "fill_step stream_parse_next ?c1 ?r1 = Inr (Continue (?c2, ?r2))"
    using fill_step_first_anchor [where p = stream_parse_next and self = ?r1
        and m = "sample_gps 1000" and t = 1
        and ?self1.0 = "stream_reader [sample_att 2] [sample_att 1] None Map.empty"]
    by (simp add: stream_parse_next_def stream_reader_sel stream_reader_upd sample_gps_facts)
  then have s2: "fill_loop stream_parse_next ?c1 ?r1 = fill_loop stream_parse_next ?c2 ?r2"
    by (rule fill_loop_continue)
  have "fill_step stream_parse_next ?c2 ?r2 = Inr (Continue (?c3, ?r3))"
    using fill_step_other_type [where p = stream_parse_next and self = ?r2
        and m = "sample_att 2"
        and ?self1.0 = "stream_reader [] [sample_att 1, sample_gps 1000] (Some 1) Map.empty"]
    by (simp add: stream_parse_next_def stream_reader_sel stream_reader_upd sample_att_facts)
  then have s3: "fill_loop stream_parse_next ?c2 ?r2 = fill_loop stream_parse_next ?c3 ?r3"
    by (rule fill_loop_continue)
  have "pop_loop (queue ?r3) = [sample_att 1]"
    by (simp add: stream_reader_sel pop_loop_def sample_att_facts sample_gps_facts)
  then have s4: "fill_loop stream_parse_next ?c3 ?r3 = Some (Inl TypeError)"
    using fill_loop_eof [of ?r3 ?c3] by (simp add: stream_reader_sel)
  show ?thesis
    by (simp add: fill_msg_queue_def stream_reader_sel s1 s2 s3 s4)
qed

subsection \<open>GPS2 records\<close>

text \<open>
  C3, as the code has it. A record of type GPS2 never ends the batch and never seeds
  \<^verbatim>\<open>last_gps_time\<close>, whatever time it carries: the loop appends it to the queue and goes
  on. Only when the timestamps of a finished batch are assigned does a GPS2 record with
  a derivable non-zero time get that time as its timestamp.
\<close>

theorem gps2_is_not_an_anchor:
  assumes "p self = Inr (Some m, self1)" and "get_type m = ''GPS2''"
  shows "fill_step p counts self =
           Inr (Continue (bump counts ''GPS2'', self1\<lparr> queue := queue self1 @ [m] \<rparr>))
         \<and> (\<forall>t. get_gps_time m = Inr (Some t) \<and> t \<noteq> 0 \<longrightarrow>
               assign_one g dl cn m cp = Inr (stamp m t, cp))"
proof (intro conjI allI impI)
  from assms(2) have "get_type m \<noteq> ''GPS''" by simp
  from fill_step_other_type [where p = p, OF assms(1) this] assms(2)
  show "fill_step p counts self =
      Inr (Continue (bump counts ''GPS2'', self1\<lparr> queue := queue self1 @ [m] \<rparr>))"
    by simp
next
  fix t assume "get_gps_time m = Inr (Some t) \<and> t \<noteq> 0"
  with assms(2) show "assign_one g dl cn m cp = Inr (stamp m t, cp)"
    by (intro assign_one_anchor) simp_all
qed

theorem gps2_is_not_an_anchor_witness:
  "fill_step stream_parse_next Map.empty
     (stream_reader [sample_gps2 2000] [] (Some 1) Map.empty) =
   Inr (Continue (bump Map.empty ''GPS2'',
          stream_reader [] [sample_gps2 2000] (Some 1) Map.empty))
   \<and> assign_one 3 2 [''GPS2'' \<mapsto> 1] (sample_gps2 2000) ([''GPS2'' \<mapsto> 1], Map.empty) =
       Inr (stamp (sample_gps2 2000) 2, [''GPS2'' \<mapsto> 1], Map.empty)"
proof -
  let ?r = "stream_reader [sample_gps2 2000] [] (Some 1) Map.empty"
  have a: "stream_parse_next ?r = Inr (Some (sample_gps2 2000), stream_reader [] [] (Some 1) Map.empty)"
    by (simp add: stream_parse_next_def stream_reader_sel stream_reader_upd)
  have b: "get_type (sample_gps2 2000) = ''GPS2''" by (simp add: sample_gps_facts)
  have c: "get_gps_time (sample_gps2 2000) = Inr (Some 2) \<and> (2::real) \<noteq> 0"
    by (simp add: sample_gps_facts)
  from gps2_is_not_an_anchor [where p = stream_parse_next, OF a b,
      of Map.empty 3 2 "[''GPS2'' \<mapsto> 1]" "([''GPS2'' \<mapsto> 1], Map.empty)"] c
  show ?thesis
    by (simp add: stream_reader_sel stream_reader_upd)
qed

lemma timestamp_stamp: "timestamp (stamp m t) = Some (PFloat t)"
  by (simp add: stamp_def)

lemma single_gps_closes:
  "fill_step stream_parse_next Map.empty
     (stream_reader [sample_gps 2000] [] (Some 1) Map.empty) =
   Inr (Return (1, stream_reader [] [stamp (sample_gps 2000) 2] (Some 2) Map.empty))"
proof -
  let ?r = "stream_reader [sample_gps 2000] [] (Some 1) Map.empty"
  let ?r1 = "stream_reader [] [] (Some 1) Map.empty"
  have a: "stream_parse_next ?r = Inr (Some (sample_gps 2000), ?r1)"
    by (simp add: stream_parse_next_def stream_reader_sel stream_reader_upd)
  have one: "assign_one 2 1 cn (sample_gps 2000) cp = Inr (stamp (sample_gps 2000) 2, cp)"
    for cn cp
    by (rule assign_one_anchor) (simp_all add: sample_gps_facts)
  have fin: "finish_batch (Some 2) (Some ''GPS'') (bump Map.empty ''GPS'')
        (?r1\<lparr> queue := queue ?r1 @ [sample_gps 2000] \<rparr>) =
      Inr (stream_reader [] [stamp (sample_gps 2000) 2] (Some 2) Map.empty)"
    by (simp add: finish_batch_def stream_reader_sel stream_reader_upd bump_def one bnd_def
          sort_queue_def timestamp_stamp)
  have "fill_step stream_parse_next Map.empty ?r =
      bnd (finish_batch (Some 2) (Some ''GPS'') (bump Map.empty ''GPS'')
             (?r1\<lparr> queue := queue ?r1 @ [sample_gps 2000] \<rparr>))
        (\<lambda>self3. Inr (Return (int (length (queue self3)), self3)))"
    using a
    by (intro fill_step_closing_anchor [where p = stream_parse_next and t = 2 and l = 1])
       (simp_all add: sample_gps_facts stream_reader_sel)
  then show ?thesis
    by (simp only: fin) (simp add: bnd_def stream_reader_sel)
qed

text \<open>
  C3 as stated fails. A GPS2 record with the derivable time 2 s neither seeds
  \<^verbatim>\<open>last_gps_time\<close> after a rewind nor ends a batch; a GPS record with the same field
  does both.
\<close>

theorem gps2_counterexample:
  "get_gps_time (sample_gps2 2000) = Inr (Some 2)
   \<and> get_gps_time (sample_gps 2000) = Inr (Some 2)
   \<and> fill_step stream_parse_next Map.empty
        (stream_reader [sample_gps2 2000] [] None Map.empty) =
      Inr (Continue (bump Map.empty ''GPS2'',
             stream_reader [] [sample_gps2 2000] None Map.empty))
   \<and> fill_step stream_parse_next Map.empty
        (stream_reader [sample_gps 2000] [] None Map.empty) =
      Inr (Continue (bump Map.empty ''GPS'',
             stream_reader [] [sample_gps 2000] (Some 2) Map.empty))
   \<and> fill_step stream_parse_next Map.empty
        (stream_reader [sample_gps2 2000] [] (Some 1) Map.empty) =
      Inr (Continue (bump Map.empty ''GPS2'',
             stream_reader [] [sample_gps2 2000] (Some 1) Map.empty))
   \<and> fill_step stream_parse_next Map.empty
        (stream_reader [sample_gps 2000] [] (Some 1) Map.empty) =
      Inr (Return (1, stream_reader [] [stamp (sample_gps 2000) 2] (Some 2) Map.empty))"
proof -
  have a: "fill_step stream_parse_next Map.empty
        (stream_reader [sample_gps2 2000] [] l Map.empty) =
      Inr (Continue (bump Map.empty ''GPS2'',
             stream_reader [] [sample_gps2 2000] l Map.empty))" for l
    using fill_step_other_type [where p = stream_parse_next and m = "sample_gps2 2000"
        and self = "stream_reader [sample_gps2 2000] [] l Map.empty"
        and ?self1.0 = "stream_reader [] [] l Map.empty" and counts = Map.empty]
    by (simp add: stream_parse_next_def stream_reader_sel stream_reader_upd sample_gps_facts)
  have b: "fill_step stream_parse_next Map.empty
        (stream_reader [sample_gps 2000] [] None Map.empty) =
      Inr (Continue (bump Map.empty ''GPS'',
             stream_reader [] [sample_gps 2000] (Some 2) Map.empty))"
    using fill_step_first_anchor [where p = stream_parse_next and m = "sample_gps 2000"
        and self = "stream_reader [sample_gps 2000] [] None Map.empty" and t = 2
        and ?self1.0 = "stream_reader [] [] None Map.empty" and counts = Map.empty]
    by (simp add: stream_parse_next_def stream_reader_sel stream_reader_upd sample_gps_facts)
  show ?thesis
    by (simp add: a b single_gps_closes sample_gps_facts)
qed


subsection \<open>The order of delivery\<close>

lemma sort_queue_sorted:
  assumes "sort_queue q = Inr q'"
  shows "sorted (map msg_key (rev q')) \<and> (\<forall>m \<in> set q'. timestamp m \<noteq> None)"
proof -
  from assms have none: "\<forall>m \<in> set q. timestamp m \<noteq> None"
    and q': "q' = rev (sort_key msg_key (rev q))"
    by (auto simp: sort_queue_def split: if_splits)
  from q' have "sorted (map msg_key (rev q'))" by simp
  moreover from q' none have "\<forall>m \<in> set q'. timestamp m \<noteq> None" by simp
  ultimately show ?thesis by simp
qed

lemma finish_batch_sorted:
  assumes "finish_batch t ty cn self = Inr self'"
  shows "sorted (map msg_key (rev (queue self'))) \<and> (\<forall>m \<in> set (queue self'). timestamp m \<noteq> None)"
proof -
  from assms obtain q where "sort_queue q = Inr (queue self')"
    by (auto simp: finish_batch_def bnd_def split: option.splits sum.splits prod.splits)
  then show ?thesis by (rule sort_queue_sorted)
qed

lemma fill_step_return_sorted:
  assumes "fill_step p counts self = Inr (Return (n, self'))"
  shows "sorted (map msg_key (rev (queue self'))) \<and> (\<forall>m \<in> set (queue self'). timestamp m \<noteq> None)"
proof (cases "p self")
  case (Inl e)
  with assms show ?thesis by (simp add: fill_step_def bnd_def)
next
  case (Inr r)
  obtain m self1 where r: "r = (m, self1)" by (cases r)
  let ?self2 = "case m of Some msg \<Rightarrow> self1\<lparr> queue := queue self1 @ [msg] \<rparr>
                | None \<Rightarrow> self1\<lparr> queue := pop_loop (queue self1) \<rparr>"
  show ?thesis
  proof (cases "queue ?self2 = []")
    case True
    with assms Inr r have "self' = ?self2" by (simp add: fill_step_def bnd_def Let_def)
    with True show ?thesis by simp
  next
    case False
    with assms Inr r obtain t ty cn where "finish_batch t ty cn ?self2 = Inr self'"
      by (auto simp: fill_step_def bnd_def Let_def split: sum.splits if_splits)
    then show ?thesis by (rule finish_batch_sorted)
  qed
qed

lemma fill_loop_sorted:
  assumes ret: "fill_loop p counts self = Some y"
  shows "\<forall>n self'. y = Inr (n, self') \<longrightarrow>
           sorted (map msg_key (rev (queue self'))) \<and> (\<forall>m \<in> set (queue self'). timestamp m \<noteq> None)"
proof (rule fill_loop.raw_induct [where P = "\<lambda>p counts self y. \<forall>n self'. y = Inr (n, self') \<longrightarrow>
           sorted (map msg_key (rev (queue self'))) \<and> (\<forall>m \<in> set (queue self'). timestamp m \<noteq> None)",
      OF _ ret])
  fix f and p :: "'a DFReader_scheme \<Rightarrow> error + DFMessage option \<times> 'a DFReader_scheme"
    and counts self y
  assume IH: "\<And>p counts self y. f p counts self = Some y \<Longrightarrow>
      \<forall>n self'. y = Inr (n, self') \<longrightarrow>
           sorted (map msg_key (rev (queue self'))) \<and> (\<forall>m \<in> set (queue self'). timestamp m \<noteq> None)"
    and eq: "(case fill_step p counts self of
        Inl e \<Rightarrow> Some (Inl e)
      | Inr (Continue (counts', self')) \<Rightarrow> f p counts' self'
      | Inr (Return r) \<Rightarrow> Some (Inr r)) = Some y"
  show "\<forall>n self'. y = Inr (n, self') \<longrightarrow>
           sorted (map msg_key (rev (queue self'))) \<and> (\<forall>m \<in> set (queue self'). timestamp m \<noteq> None)"
  proof (cases "fill_step p counts self")
    case (Inl e)
    with eq show ?thesis by auto
  next
    case (Inr out)
    show ?thesis
    proof (cases out)
      case (Continue cs)
      obtain counts' self1 where "cs = (counts', self1)" by (cases cs)
      with eq Inr Continue have "f p counts' self1 = Some y" by simp
      then show ?thesis by (rule IH)
    next
      case (Return r)
      obtain n self1 where r: "r = (n, self1)" by (cases r)
      with eq Inr Return have y: "y = Inr (n, self1)" by simp
      from Inr Return r have "fill_step p counts self = Inr (Return (n, self1))" by simp
      from fill_step_return_sorted [OF this] y show ?thesis by simp
    qed
  qed
qed

lemma fill_msg_queue_sorted:
  assumes "fill_msg_queue p self = Some (Inr (r, batch))" and "queue self = []"
  shows "sorted (map msg_key (rev (queue batch))) \<and> (\<forall>m \<in> set (queue batch). timestamp m \<noteq> None)"
proof -
  from assms obtain z where z: "fill_loop p Map.empty self = Some z"
    and m: "map_sum id (\<lambda>(n, self'). (Some n, self')) z = Inr (r, batch)"
    by (auto simp: fill_msg_queue_def)
  from m obtain n where "z = Inr (n, batch)"
    by (cases z) auto
  with fill_loop_sorted [OF z] show ?thesis by simp
qed

lemma update_state_queue:
  assumes "update_state py self m = Inr self'"
  shows "queue self' = queue self"
  using assms
  by (auto simp: update_state_def bnd_def Let_def split: if_splits sum.splits pyval.splits)

lemma recv_msg_pop:
  assumes "queue self \<noteq> []" and "recv_msg py p self = Some (Inr (r, self'))"
  shows "r = Some (last (queue self)) \<and> queue self' = butlast (queue self)"
proof -
  from assms obtain s where "update_state py (self\<lparr> queue := butlast (queue self) \<rparr>)
      (last (queue self)) = Inr s" and "r = Some (last (queue self))" and "self' = s"
    by (auto simp: recv_msg_def bnd_def split: sum.splits)
  with update_state_queue [of py "self\<lparr> queue := butlast (queue self) \<rparr>" "last (queue self)" s]
  show ?thesis by simp
qed

lemma recv_n_pops:
  assumes "n \<le> length (queue self)" and "recv_n py p n self = Some (Inr (ms, self'))"
  shows "ms = map Some (take n (rev (queue self)))"
  using assms
proof (induction n arbitrary: self ms)
  case 0
  then show ?case by simp
next
  case (Suc n)
  from Suc.prems(1) have ne: "queue self \<noteq> []" by auto
  from Suc.prems(2) obtain r self1 ms1 where
    one: "recv_msg py p self = Some (Inr (r, self1))"
    and rest: "recv_n py p n self1 = Some (Inr (ms1, self'))" and ms: "ms = r # ms1"
    by (auto split: option.splits sum.splits prod.splits)
  from ne obtain q x where qx: "queue self = q @ [x]"
    by (cases "queue self" rule: rev_cases) auto
  from recv_msg_pop [OF ne one] qx
  have r: "r = Some x" and q1: "queue self1 = q" by simp_all
  from Suc.prems(1) q1 qx have "n \<le> length (queue self1)" by simp
  from Suc.IH [OF this rest] q1 have "ms1 = map Some (take n (rev q))" by simp
  with ms r qx show ?case by simp
qed

lemma recv_msg_after_fill:
  assumes "queue self = []" and "fill_msg_queue p self = Some (Inr (r, batch))"
    and "queue batch \<noteq> []"
  shows "recv_msg py p self = recv_msg py p batch"
  using assms by (simp add: recv_msg_def)

text \<open>
  C9. Let a call of \<^verbatim>\<open>_fill_msg_queue\<close> on an empty queue reconstruct a batch. Then the
  next \<open>n\<close> calls of \<^verbatim>\<open>recv_msg\<close>, for \<open>n\<close> up to the size of the batch, return the
  records of the batch from the end of the queue, every one with a timestamp, and in
  non-decreasing order of their timestamps (numbers by value, before strs, as Python 2
  compares them).
\<close>

theorem recv_msg_batch_order:
  assumes "queue self = []"
    and "fill_msg_queue p self = Some (Inr (r, batch))"
    and "n \<le> length (queue batch)"
    and "recv_n py p n self = Some (Inr (ms, self'))"
  shows "ms = map Some (take n (rev (queue batch)))
         \<and> sorted (map msg_key (take n (rev (queue batch))))
         \<and> (\<forall>m \<in> set (queue batch). timestamp m \<noteq> None)"
proof -
  from fill_msg_queue_sorted [OF assms(2,1)]
  have s: "sorted (map msg_key (rev (queue batch)))"
    and t: "\<forall>m \<in> set (queue batch). timestamp m \<noteq> None" by simp_all
  from s have s': "sorted (map msg_key (take n (rev (queue batch))))"
    by (simp add: take_map [symmetric] sorted_wrt_take)
  have "ms = map Some (take n (rev (queue batch)))"
  proof (cases n)
    case 0
    with assms(4) show ?thesis by simp
  next
    case (Suc k)
    with assms(3) have ne: "queue batch \<noteq> []" by auto
    from recv_msg_after_fill [OF assms(1,2) ne]
    have "recv_n py p (Suc k) self = recv_n py p (Suc k) batch" by simp
    with assms(4) Suc have "recv_n py p n batch = Some (Inr (ms, self'))" by simp
    from recv_n_pops [OF assms(3) this] show ?thesis .
  qed
  with s' t show ?thesis by simp
qed


lemma update_state_plain:
  assumes "get_type m \<noteq> ''PARM''" and "get_type m \<noteq> ''MODE''"
  shows "update_state py self m = Inr (self\<lparr> messages := (messages self)(get_type m \<mapsto> m) \<rparr>)"
  using assms by (simp add: update_state_def bnd_def Let_def)

lemma recv_n_plain:
  assumes "\<forall>m \<in> set (queue self). get_type m \<noteq> ''PARM'' \<and> get_type m \<noteq> ''MODE''"
    and "n \<le> length (queue self)"
  shows "\<exists>ms self'. recv_n py p n self = Some (Inr (ms, self'))"
  using assms
proof (induction n arbitrary: self)
  case 0
  then show ?case by simp
next
  case (Suc n)
  from Suc.prems(2) obtain q x where qx: "queue self = q @ [x]"
    by (cases "queue self" rule: rev_cases) auto
  let ?s = "self\<lparr> queue := q, messages := (messages self)(get_type x \<mapsto> x) \<rparr>"
  from Suc.prems(1) qx have x: "get_type x \<noteq> ''PARM''" "get_type x \<noteq> ''MODE''" by simp_all
  have one: "recv_msg py p self = Some (Inr (Some x, ?s))"
    using qx update_state_plain [OF x, of py "self\<lparr> queue := q \<rparr>"]
    by (simp add: recv_msg_def bnd_def)
  from Suc.prems qx have "\<exists>ms self'. recv_n py p n ?s = Some (Inr (ms, self'))"
    by (intro Suc.IH) simp_all
  then obtain ms self' where "recv_n py p n ?s = Some (Inr (ms, self'))" by blast
  with one show ?case by simp
qed

lemma recv_n_after_fill:
  assumes "queue self = []" and "fill_msg_queue p self = Some (Inr (r, batch))"
    and "queue batch \<noteq> []"
  shows "recv_n py p (Suc k) self = recv_n py p (Suc k) batch"
  using recv_msg_after_fill [OF assms] by simp

theorem recv_msg_batch_order_witness:
  "\<exists>self'. recv_n sample_builtins stream_parse_next 2
      (stream_reader [sample_gps 1000, sample_att 1, sample_att 2, sample_gps 3000] [] None
         Map.empty) =
      Some (Inr ([Some (stamp (sample_att 1) 0), Some (stamp (sample_gps 1000) 1)], self'))
    \<and> sorted (map msg_key [stamp (sample_att 1) 0, stamp (sample_gps 1000) 1])"
proof -
  let ?r = "stream_reader [sample_gps 1000, sample_att 1, sample_att 2, sample_gps 3000] [] None
              Map.empty"
  let ?q = "[stamp (sample_gps 3000) 3, stamp (sample_att 2) 2, stamp (sample_gps 1000) 1,
        stamp (sample_att 1) 0]"
  let ?b = "stream_reader [] ?q (Some 3) [''ATT'' \<mapsto> 2]"
  have e: "queue ?r = []" by (simp add: stream_reader_sel)
  have f: "fill_msg_queue stream_parse_next ?r = Some (Inr (Some 4, ?b))"
    by (rule sample_batch_fill)
  have n: "2 \<le> length (queue ?b)" by (simp add: stream_reader_sel)
  have ty: "\<forall>m \<in> set (queue ?b). get_type m \<noteq> ''PARM'' \<and> get_type m \<noteq> ''MODE''"
    by (simp add: stream_reader_sel stamp_def get_type_def sample_gps_def sample_att_def
          sample_msg_def)
  from recv_n_plain [OF ty n] obtain ms self'
    where "recv_n sample_builtins stream_parse_next 2 ?b = Some (Inr (ms, self'))" by blast
  moreover have "recv_n sample_builtins stream_parse_next (Suc (Suc 0)) ?r =
      recv_n sample_builtins stream_parse_next (Suc (Suc 0)) ?b"
    by (rule recv_n_after_fill [OF e f]) (simp add: stream_reader_sel)
  ultimately have g: "recv_n sample_builtins stream_parse_next 2 ?r = Some (Inr (ms, self'))"
    by (simp add: eval_nat_numeral)
  from recv_msg_batch_order [OF e f n g]
  have "ms = [Some (stamp (sample_att 1) 0), Some (stamp (sample_gps 1000) 1)]"
    and "sorted (map msg_key [stamp (sample_att 1) 0, stamp (sample_gps 1000) 1])"
    by (simp_all add: stream_reader_sel eval_nat_numeral)
  with g show ?thesis by blast
qed

end
